theory Spec2Isabelle
  imports Complex_Main "HOL-Library.AList" "HOL-Library.Log_Nat" "HOL-Library.Product_Lexorder"
begin

section \<open>Python values, exceptions and the JSON files\<close>

text \<open>
  The exceptions the modelled code can raise. A function that can raise returns
  \<open>error + 'a\<close>, with \<open>Inl\<close> carrying the exception.
\<close>

datatype error =
  KeyError | IndexError | TypeError | ValueError | AttributeError | UnboundLocalError
  | OverflowError

text \<open>
  A JSON object, and the Python \<open>dict\<close> it is loaded into, is a list of key/value pairs in
  insertion order. A loaded \<open>dict\<close> never holds a key twice, which is the predicate
  \<open>is_dict\<close>.
\<close>

type_synonym 'v table = "(string \<times> 'v) list"

definition is_dict :: "'v table \<Rightarrow> bool" where
  "is_dict d = distinct (map fst d)"

text \<open>\<open>d[k]\<close> raises \<open>KeyError\<close> on a missing key; \<open>xs[0]\<close> raises \<open>IndexError\<close> on \<open>[]\<close>.\<close>

definition getitem :: "'v table \<Rightarrow> string \<Rightarrow> error + 'v" where
  "getitem d k = (case map_of d k of None \<Rightarrow> Inl KeyError | Some v \<Rightarrow> Inr v)"

definition first :: "'a list \<Rightarrow> error + 'a" where
  "first xs = (case xs of [] \<Rightarrow> Inl IndexError | x # _ \<Rightarrow> Inr x)"

subsection \<open>Numbers\<close>

text \<open>
  A JSON number as \<open>json.load\<close> gives it: a Python \<open>int\<close>, which is unbounded, or a
  \<open>float\<close>, a finite IEEE 754 binary64 value, carried as the rational it denotes.
\<close>

datatype number = PyInt int | PyFloat rat


text \<open>
  Rounding of a rational to binary64, to nearest with ties to even: \<open>binary_exponent a\<close> is
  the \<open>e\<close> with \<open>2\<^sup>e \<le> a < 2\<^sup>e\<^sup>+\<^sup>1\<close> for \<open>a > 0\<close>, the spacing of the doubles around \<open>a\<close> is
  \<open>2\<^sup>e\<^sup>-\<^sup>5\<^sup>2\<close> (with \<open>e\<close> at least \<open>-1022\<close>, where the subnormals begin), and a result of
  magnitude \<open>2\<^sup>1\<^sup>0\<^sup>2\<^sup>4\<close> or more, which is \<open>n = 2\<^sup>5\<^sup>3\<close> at \<open>e = 1023\<close> or any \<open>e\<close> above, is out of
  range: \<open>None\<close>.
\<close>

definition pow2 :: "int \<Rightarrow> rat" where
  "pow2 e = (if 0 \<le> e then 2 ^ nat e else 1 / 2 ^ nat (- e))"

definition binary_exponent :: "rat \<Rightarrow> int" where
  "binary_exponent a =
     (let (p, q) = quotient_of a; d = bitlen p - bitlen q
      in if pow2 d \<le> a then d else d - 1)"

definition round_half_even :: "rat \<Rightarrow> int" where
  "round_half_even m =
     (let f = \<lfloor>m\<rfloor>; r = m - of_int f
      in if r < 1 / 2 then f else if 1 / 2 < r then f + 1 else if even f then f else f + 1)"

definition round_double :: "rat \<Rightarrow> rat option" where
  "round_double x =
     (if x = 0 then Some 0
      else
        (let a = \<bar>x\<bar>;
             e = max (binary_exponent a) (- 1022);
             quantum = pow2 (e - 52);
             n = round_half_even (a / quantum)
         in if 1023 < e \<or> (e = 1023 \<and> 2 ^ 53 \<le> n) then None
            else Some (sgn x * (of_int n * quantum))))"

text \<open>
  \<open>float(x)\<close> as the mixed arithmetic applies it to an operand: an \<open>int\<close> is rounded to the
  nearest double, and one beyond the range of a double raises \<open>OverflowError\<close>.
\<close>

definition to_float :: "number \<Rightarrow> error + rat" where
  "to_float x =
     (case x of
        PyFloat q \<Rightarrow> Inr q
      | PyInt a \<Rightarrow> (case round_double (of_int a) of None \<Rightarrow> Inl OverflowError | Some y \<Rightarrow> Inr y))"

text \<open>
  \<open>abs(x - y)\<close>: exact on two \<open>int\<close>s, else the subtraction of doubles, correctly rounded,
  which overflows to \<open>inf\<close> without raising. The result is a sort key, \<open>(False, v)\<close> for the
  finite value \<open>v\<close> and \<open>(True, 0)\<close> for \<open>inf\<close>; pairs are ordered lexicographically, so
  finite keys compare by value, as Python compares \<open>int\<close> and \<open>float\<close>, and \<open>inf\<close> is above
  them all.
\<close>

type_synonym sort_key_value = "bool \<times> rat"

definition abs_diff :: "number \<Rightarrow> number \<Rightarrow> error + sort_key_value" where
  "abs_diff x y =
     (case (x, y) of
        (PyInt a, PyInt b) \<Rightarrow> Inr (False, of_int \<bar>a - b\<bar>)
      | _ \<Rightarrow>
          (case to_float x of
             Inl e \<Rightarrow> Inl e
           | Inr u \<Rightarrow>
               (case to_float y of
                  Inl e \<Rightarrow> Inl e
                | Inr v \<Rightarrow>
                    (case round_double (u - v) of
                       None \<Rightarrow> Inr (True, 0)
                     | Some d \<Rightarrow> Inr (False, \<bar>d\<bar>)))))"

subsection \<open>The records of the users file\<close>

text \<open>
  One record of \<open>data/mrs_users.json\<close>. \<open>DataExtractor.get_users_data\<close> and
  \<open>DataExtractor.get_songs_data\<close> both read this one file, so a record may carry the fields of a
  user (\<open>played_songs\<close>) and those of a song (\<open>BPM\<close>, \<open>genre\<close>); a field that is absent is
  \<open>None\<close> and reading it raises \<open>KeyError\<close>. A tempo is any JSON number.
\<close>

record entry =
  played_songs :: "string list table option"
  BPM :: "number option"
  genre :: "string option"

definition field :: "'a option \<Rightarrow> error + 'a" where
  "field f = (case f of None \<Rightarrow> Inl KeyError | Some v \<Rightarrow> Inr v)"

text \<open>
  The two files, \<open>CONFIG_DATA\<close> and \<open>USERS_DATA\<close>. \<open>None\<close> is a file that is missing or does
  not parse (\<open>FileNotFoundError\<close>, \<open>JSONDecodeError\<close>).
\<close>

record store =
  config_file :: "rat list table option"
  users_file :: "entry table option"

subsection \<open>\<open>str\<close> of a natural number\<close>

definition digit_char :: "nat \<Rightarrow> char" where
  "digit_char d = ''0123456789'' ! d"

fun str :: "nat \<Rightarrow> string" where
  "str n = (if n < 10 then [digit_char n] else str (n div 10) @ [digit_char (n mod 10)])"

declare str.simps [simp del]

section \<open>\<open>JSONData\<close>\<close>

text \<open>
  What \<open>JSONData.read_json\<close> returns: the value under the key, the whole object (no key given,
  or the key is not in the object), or Python's \<open>None\<close> (the \<open>except\<close> branch).
\<close>

datatype 'v json_read = Entry 'v | Whole "'v table" | Nothing

definition read_json :: "'v table option \<Rightarrow> string option \<Rightarrow> 'v json_read" where
  "read_json file key =
     (case file of
        None \<Rightarrow> Nothing
      | Some data \<Rightarrow>
          (case key of
             None \<Rightarrow> Whole data
           | Some k \<Rightarrow> (case map_of data k of Some result \<Rightarrow> Entry result | None \<Rightarrow> Whole data)))"

text \<open>
  \<open>dict.setdefault(k, default)\<close>: the stored value if there is one, else \<open>default\<close>, which is
  then stored under \<open>k\<close> at the end of the object.
\<close>

definition setdefault :: "string \<Rightarrow> 'v \<Rightarrow> 'v table \<Rightarrow> 'v \<times> 'v table" where
  "setdefault k d m = (case map_of m k of Some v \<Rightarrow> (v, m) | None \<Rightarrow> (d, m @ [(k, d)]))"

definition empty_entry :: entry where
  "empty_entry = \<lparr>played_songs = None, BPM = None, genre = None\<rparr>"

text \<open>
  \<open>JSONData.write_json(keys, value)\<close> for the only path the program writes,
  \<open>keys = [user_id, 'played_songs', song_id]\<close>: the loop over \<open>keys[:-1]\<close> walks (and creates)
  the user's record and its \<open>played_songs\<close> object with \<open>setdefault\<close>, the last key is
  assigned, and the object is written back. On a missing file nothing is written.
\<close>

definition write_json ::
  "entry table option \<Rightarrow> string \<Rightarrow> string \<Rightarrow> string list \<Rightarrow> entry table option" where
  "write_json file user_id song_id v =
     (case file of
        None \<Rightarrow> None
      | Some data \<Rightarrow>
          (let (e, data1) = setdefault user_id empty_entry data;
               ps = (case played_songs e of Some p \<Rightarrow> p | None \<Rightarrow> []);
               e' = e\<lparr>played_songs := Some (AList.update song_id v ps)\<rparr>
           in Some (AList.update user_id e' data1)))"

section \<open>\<open>DataExtractor\<close>\<close>

definition get_songs_probabilities_data :: "rat list table option \<Rightarrow> nat \<Rightarrow> rat list json_read" where
  "get_songs_probabilities_data cfg n =
     (let key = ''songs_probabilities_set'' @ str n in read_json cfg (Some key))"

definition get_users_data :: "entry table option \<Rightarrow> entry json_read" where
  "get_users_data users = read_json users None"

definition get_songs_data :: "entry table option \<Rightarrow> entry json_read" where
  "get_songs_data users = read_json users None"

text \<open>\<open>len(user_data)\<close>; \<open>len(None)\<close> raises \<open>TypeError\<close>.\<close>

definition get_user_count :: "entry table option \<Rightarrow> error + nat" where
  "get_user_count users =
     (case read_json users None of
        Whole user_data \<Rightarrow> Inr (length user_data)
      | Entry e \<Rightarrow> Inl TypeError
      | Nothing \<Rightarrow> Inl TypeError)"

text \<open>Sequencing of calls that can raise: the first exception ends the computation.\<close>

definition bindE :: "error + 'a \<Rightarrow> ('a \<Rightarrow> error + 'b) \<Rightarrow> error + 'b" where
  "bindE m f = (case m of Inl e \<Rightarrow> Inl e | Inr x \<Rightarrow> f x)"

text \<open>\<open>dict(pairs)\<close>: the pairs are stored one after the other.\<close>

definition dict_of :: "(string \<times> 'v) list \<Rightarrow> 'v table" where
  "dict_of pairs = fold (\<lambda>(k, v) d. AList.update k v d) pairs []"

subsection \<open>\<open>get_similar_bpm_songs\<close>\<close>

text \<open>
  The loop \<open>for id, genre_bpm in songs_data.items()\<close> with its accumulator \<open>song_list\<close>.
\<close>

fun same_genre_songs ::
  "string \<Rightarrow> string \<Rightarrow> entry table \<Rightarrow> number table \<Rightarrow> error + number table" where
  "same_genre_songs song_id song_genre [] song_list = Inr song_list"
| "same_genre_songs song_id song_genre ((sid, genre_bpm) # rest) song_list =
     (case field (genre genre_bpm) of
        Inl e \<Rightarrow> Inl e
      | Inr g \<Rightarrow>
          if g = song_genre \<and> song_id \<noteq> sid then
            (case field (BPM genre_bpm) of
               Inl e \<Rightarrow> Inl e
             | Inr b \<Rightarrow> same_genre_songs song_id song_genre rest (AList.update sid b song_list))
          else same_genre_songs song_id song_genre rest song_list)"

text \<open>
  \<open>sorted(items, key=lambda item: abs(item[1] - song_bpm))\<close>: the key of every item is
  computed first, in order, and the first exception ends the call; the items are then sorted by
  key, stably.
\<close>

fun keyed ::
  "number \<Rightarrow> (string \<times> number) list \<Rightarrow> error + (sort_key_value \<times> string \<times> number) list" where
  "keyed song_bpm [] = Inr []"
| "keyed song_bpm (item # rest) =
     bindE (abs_diff (snd item) song_bpm) (\<lambda>k.
     bindE (keyed song_bpm rest) (\<lambda>ks. Inr ((k, item) # ks)))"

definition sorted_by_gap ::
  "number \<Rightarrow> (string \<times> number) list \<Rightarrow> error + (string \<times> number) list" where
  "sorted_by_gap song_bpm items =
     bindE (keyed song_bpm items) (\<lambda>ks. Inr (map snd (sort_key fst ks)))"

definition get_similar_bpm_songs :: "entry table option \<Rightarrow> string \<Rightarrow> error + string list" where
  "get_similar_bpm_songs users song_id =
     (case get_songs_data users of
        Nothing \<Rightarrow> Inl TypeError
      | Entry e \<Rightarrow> Inl TypeError
      | Whole songs_data \<Rightarrow>
          bindE (bindE (getitem songs_data song_id) (\<lambda>e. field (BPM e))) (\<lambda>song_bpm.
          bindE (bindE (getitem songs_data song_id) (\<lambda>e. field (genre e))) (\<lambda>song_genre.
          bindE (same_genre_songs song_id song_genre songs_data []) (\<lambda>song_list.
          bindE (sorted_by_gap song_bpm song_list) (\<lambda>sorted_items.
            let sorted_data = dict_of sorted_items
            in Inr (map fst sorted_data))))))"

subsection \<open>\<open>get_most_played_songs\<close>\<close>

text \<open>The inner loop \<open>for song, next_song in v['played_songs'].items()\<close>.\<close>

fun scan_played :: "string \<Rightarrow> string list table \<Rightarrow> string list \<Rightarrow> error + string list" where
  "scan_played song_id [] next_songs = Inr next_songs"
| "scan_played song_id ((song, next_song) # rest) next_songs =
     (if song = song_id then
        (case first next_song of
           Inl e \<Rightarrow> Inl e
         | Inr x \<Rightarrow> scan_played song_id rest (next_songs @ [x]))
      else scan_played song_id rest next_songs)"

text \<open>The outer loop \<open>for k, v in users_data.items()\<close>.\<close>

fun scan_users :: "string \<Rightarrow> entry table \<Rightarrow> string list \<Rightarrow> error + string list" where
  "scan_users song_id [] next_songs = Inr next_songs"
| "scan_users song_id ((k, v) # rest) next_songs =
     (case field (played_songs v) of
        Inl e \<Rightarrow> Inl e
      | Inr ps \<Rightarrow>
          (case scan_played song_id ps next_songs of
             Inl e \<Rightarrow> Inl e
           | Inr next_songs' \<Rightarrow> scan_users song_id rest next_songs'))"

text \<open>
  \<open>collections.Counter(xs)\<close>: a \<open>dict\<close> from element to count, keys in order of first
  occurrence. \<open>most_common(n)\<close> is \<open>sorted(items, key=count, reverse=True)[:n]\<close>; the sort is
  stable, also under \<open>reverse=True\<close>, so it is the stable sort by negated count.
\<close>

definition counter_add :: "string \<Rightarrow> nat table \<Rightarrow> nat table" where
  "counter_add x c = (case map_of c x of None \<Rightarrow> c @ [(x, 1)] | Some n \<Rightarrow> AList.update x (n + 1) c)"

definition Counter :: "string list \<Rightarrow> nat table" where
  "Counter xs = fold counter_add xs []"

definition most_common :: "nat \<Rightarrow> nat table \<Rightarrow> (string \<times> nat) list" where
  "most_common n c = take n (sort_key (\<lambda>item. - int (snd item)) c)"

definition get_most_played_songs :: "entry table option \<Rightarrow> string \<Rightarrow> error + string list" where
  "get_most_played_songs users song_id =
     (case get_users_data users of
        Nothing \<Rightarrow> Inl AttributeError
      | Entry e \<Rightarrow> Inl AttributeError
      | Whole users_data \<Rightarrow>
          bindE (scan_users song_id users_data []) (\<lambda>next_songs.
            let counter = Counter next_songs;
                most_common = most_common 3 counter
            in (case most_common of
                  m0 # m1 # m2 # _ \<Rightarrow> Inr [fst m0, fst m1, fst m2]
                | _ \<Rightarrow> Inl IndexError)))"

subsection \<open>\<open>get_mfc_users_data\<close>\<close>

text \<open>The expression \<open>v['played_songs'][song_id][0]\<close>.\<close>

definition played_first :: "entry \<Rightarrow> string \<Rightarrow> error + string" where
  "played_first v song_id =
     bindE (field (played_songs v)) (\<lambda>ps. bindE (getitem ps song_id) first)"

fun tally :: "string \<Rightarrow> string \<Rightarrow> string \<Rightarrow> entry table \<Rightarrow> nat \<Rightarrow> nat \<Rightarrow> error + nat \<times> nat" where
  "tally song_id r1 r2 [] song_1_count song_2_count = Inr (song_1_count, song_2_count)"
| "tally song_id r1 r2 ((k, v) # rest) song_1_count song_2_count =
     (case played_first v song_id of
        Inl e \<Rightarrow> Inl e
      | Inr x \<Rightarrow>
          if x = r1 then tally song_id r1 r2 rest (song_1_count + 1) song_2_count
          else
            (case played_first v song_id of
               Inl e \<Rightarrow> Inl e
             | Inr y \<Rightarrow>
                 if y = r2 then tally song_id r1 r2 rest song_1_count (song_2_count + 1)
                 else tally song_id r1 r2 rest song_1_count song_2_count))"

text \<open>The returned \<open>dict\<close> \<open>{'song_1': [r1, count], 'song_2': [r2, count]}\<close>.\<close>

record mfc_users_data =
  song_1 :: "string \<times> nat"
  song_2 :: "string \<times> nat"

definition get_mfc_users_data ::
  "entry table option \<Rightarrow> string \<Rightarrow> string \<Rightarrow> string \<Rightarrow> error + mfc_users_data" where
  "get_mfc_users_data users song_id first_recomendation second_recomendation =
     (case read_json users None of
        Nothing \<Rightarrow> Inl AttributeError
      | Entry e \<Rightarrow> Inl AttributeError
      | Whole users_data \<Rightarrow>
          bindE (tally song_id first_recomendation second_recomendation users_data 0 0)
            (\<lambda>(song_1_count, song_2_count).
               Inr \<lparr>song_1 = (first_recomendation, song_1_count),
                    song_2 = (second_recomendation, song_2_count)\<rparr>))"

section \<open>\<open>DataSaver\<close>\<close>

definition format_user_id :: "nat \<Rightarrow> string" where
  "format_user_id user_id = ''user_id_'' @ str user_id"

text \<open>\<open>set_new_song\<close> writes \<open>[next_song_id]\<close> under \<open>[user_id, 'played_songs', song_id]\<close>.\<close>

definition set_new_song :: "store \<Rightarrow> string \<Rightarrow> string \<Rightarrow> string \<Rightarrow> store" where
  "set_new_song st user_id song_id next_song_id =
     st\<lparr>users_file := write_json (users_file st) user_id song_id [next_song_id]\<rparr>"

section \<open>The random source\<close>

text \<open>
  The process-wide generator of module \<open>random\<close> is the sequence of raw values it will
  yield, with the position reached. Each library call maps one raw value into its documented
  range: \<open>random()\<close> is a multiple of \<open>2\<^sup>-\<^sup>5\<^sup>3\<close> in \<open>[0, 1)\<close>, \<open>randint(a, b)\<close> is in
  \<open>[a, b]\<close>, \<open>choice(seq)\<close> is an element of \<open>seq\<close>.
\<close>

type_synonym rng = "(nat \<Rightarrow> nat) \<times> nat"

definition next_raw :: "rng \<Rightarrow> nat \<times> rng" where
  "next_raw g = (fst g (snd g), (fst g, Suc (snd g)))"

definition random_py :: "rng \<Rightarrow> rat \<times> rng" where
  "random_py g = (let (r, g') = next_raw g in (of_nat (r mod 2 ^ 53) / 2 ^ 53, g'))"

definition randint :: "nat \<Rightarrow> nat \<Rightarrow> rng \<Rightarrow> nat \<times> rng" where
  "randint a b g = (let (r, g') = next_raw g in (a + r mod (b - a + 1), g'))"

definition choice :: "'a list \<Rightarrow> rng \<Rightarrow> error + 'a \<times> rng" where
  "choice seq g =
     (if seq = [] then Inl IndexError
      else (let (r, g') = next_raw g in Inr (seq ! (r mod length seq), g')))"

text \<open>\<open>itertools.accumulate\<close>: the running sums.\<close>

fun accumulate_from :: "rat \<Rightarrow> rat list \<Rightarrow> rat list" where
  "accumulate_from t [] = [t]"
| "accumulate_from t (w # ws) = t # accumulate_from (t + w) ws"

fun accumulate :: "rat list \<Rightarrow> rat list" where
  "accumulate [] = []"
| "accumulate (w # ws) = accumulate_from w ws"

text \<open>
  \<open>bisect.bisect_right(a, x, lo, hi)\<close>, the binary search of the library. \<open>random.choices\<close>
  calls it with \<open>lo = 0\<close> and \<open>hi = len(a) - 1\<close>, so every \<open>a[mid]\<close> is in range.
\<close>

function bisect_right :: "rat list \<Rightarrow> rat \<Rightarrow> nat \<Rightarrow> nat \<Rightarrow> nat" where
  "bisect_right a x lo hi =
     (if lo < hi then
        (let mid = (lo + hi) div 2
         in if x < a ! mid then bisect_right a x lo mid else bisect_right a x (mid + 1) hi)
      else lo)"
  by pat_completeness auto
termination
  by (relation "measure (\<lambda>(a, x, lo, hi). hi - lo)") auto

declare bisect_right.simps [simp del]

text \<open>
  \<open>random.choices(population, weights)\<close> with \<open>k = 1\<close>, where \<open>weights\<close> is whatever
  \<open>get_songs_probabilities_data\<close> returned:
  \<^item> \<open>None\<close>: a uniform draw, \<open>population[floor(random() * n)]\<close>;
  \<^item> the whole Config object: \<open>accumulate\<close> concatenates its keys, so the length check is on
    the number of keys, \<open>cum_weights[-1]\<close> raises \<open>IndexError\<close> when there is none, and adding
    \<open>0.0\<close> to a string raises \<open>TypeError\<close>;
  \<^item> a weight sequence: the length and total checks, then the bisection of the running sums.
  Weights and the uniform draw are exact rationals.
\<close>

definition choices :: "'a list \<Rightarrow> rat list json_read \<Rightarrow> rng \<Rightarrow> error + 'a list \<times> rng" where
  "choices population weights g =
     (let n = length population in
      case weights of
        Nothing \<Rightarrow>
          (let (u, g') = random_py g; i = nat \<lfloor>u * of_nat n\<rfloor>
           in if i < n then Inr ([population ! i], g') else Inl IndexError)
      | Whole cfg \<Rightarrow>
          (if length cfg \<noteq> n then Inl ValueError
           else if cfg = [] then Inl IndexError
           else Inl TypeError)
      | Entry ws \<Rightarrow>
          (let cum_weights = accumulate ws in
           if length cum_weights \<noteq> n then Inl ValueError
           else if cum_weights = [] then Inl IndexError
           else
             (let total = last cum_weights in
              if total \<le> 0 then Inl ValueError
              else
                (let (u, g') = random_py g; hi = n - 1
                 in Inr ([population ! bisect_right cum_weights (u * total) 0 hi], g')))))"

section \<open>The recommenders\<close>

subsection \<open>\<open>MFC\<close>\<close>

definition MFC_get_next_songs :: "store \<Rightarrow> string \<Rightarrow> error + string list" where
  "MFC_get_next_songs st song_id = get_most_played_songs (users_file st) song_id"

text \<open>
  Lines 51 to 57 of \<open>MFC.get_next_song\<close>, as a function of the candidate list: the guarded
  slice \<open>songs = songs[:songs_len]\<close>, the lookup of the weights and the weighted draw.
\<close>

definition MFC_select :: "store \<Rightarrow> string list \<Rightarrow> rng \<Rightarrow> error + string \<times> rng" where
  "MFC_select st songs g =
     (let songs_len = length songs;
          songs' = (if songs_len > 2 then take songs_len songs else songs);
          probabilities = get_songs_probabilities_data (config_file st) songs_len
      in bindE (choices songs' probabilities g) (\<lambda>(drawn, g').
         bindE (first drawn) (\<lambda>result. Inr (result, g'))))"

definition MFC_get_next_song :: "store \<Rightarrow> string \<Rightarrow> rng \<Rightarrow> error + string \<times> rng" where
  "MFC_get_next_song st song_id g =
     bindE (MFC_get_next_songs st song_id) (\<lambda>songs0.
     bindE (get_most_played_songs (users_file st) song_id) (\<lambda>songs.
       MFC_select st songs g))"

text \<open>The same two functions with the guarded slice removed.\<close>

definition MFC_select_unguarded :: "store \<Rightarrow> string list \<Rightarrow> rng \<Rightarrow> error + string \<times> rng" where
  "MFC_select_unguarded st songs g =
     (let songs_len = length songs;
          probabilities = get_songs_probabilities_data (config_file st) songs_len
      in bindE (choices songs probabilities g) (\<lambda>(drawn, g').
         bindE (first drawn) (\<lambda>result. Inr (result, g'))))"

definition MFC_get_next_song_unguarded :: "store \<Rightarrow> string \<Rightarrow> rng \<Rightarrow> error + string \<times> rng" where
  "MFC_get_next_song_unguarded st song_id g =
     bindE (MFC_get_next_songs st song_id) (\<lambda>songs0.
     bindE (get_most_played_songs (users_file st) song_id) (\<lambda>songs.
       MFC_select_unguarded st songs g))"

subsection \<open>\<open>BPM\<close>\<close>

text \<open>\<open>s.split(c)\<close> for a one-character separator, and \<open>xs[-1]\<close>.\<close>

fun split :: "char \<Rightarrow> string \<Rightarrow> string list" where
  "split c [] = [[]]"
| "split c (x # xs) =
     (if x = c then [] # split c xs
      else (case split c xs of p # ps \<Rightarrow> (x # p) # ps | [] \<Rightarrow> [[x]]))"

definition last_item :: "'a list \<Rightarrow> error + 'a" where
  "last_item xs = (if xs = [] then Inl IndexError else Inr (last xs))"

text \<open>
  Lines 79 to 86 of \<open>BPM.get_next_song\<close>, as a function of the candidate list. The statement
  \<open>songs[:songs_len]\<close> under the guard computes a slice and drops it.
\<close>

definition BPM_select :: "store \<Rightarrow> string list \<Rightarrow> rng \<Rightarrow> error + string \<times> rng" where
  "BPM_select st songs g =
     (let songs_len = length songs;
          dropped = (if songs_len > 2 then take songs_len songs else []);
          probabilities = get_songs_probabilities_data (config_file st) songs_len
      in bindE (choices songs probabilities g) (\<lambda>(drawn, g').
         bindE (first drawn) (\<lambda>result.
         bindE (last_item (split (CHR ''_'') result)) (\<lambda>result'. Inr (result', g')))))"

definition BPM_get_next_song :: "store \<Rightarrow> string \<Rightarrow> rng \<Rightarrow> error + string \<times> rng" where
  "BPM_get_next_song st song_id g =
     bindE (get_similar_bpm_songs (users_file st) song_id) (\<lambda>songs. BPM_select st songs g)"

definition BPM_select_unguarded :: "store \<Rightarrow> string list \<Rightarrow> rng \<Rightarrow> error + string \<times> rng" where
  "BPM_select_unguarded st songs g =
     (let songs_len = length songs;
          probabilities = get_songs_probabilities_data (config_file st) songs_len
      in bindE (choices songs probabilities g) (\<lambda>(drawn, g').
         bindE (first drawn) (\<lambda>result.
         bindE (last_item (split (CHR ''_'') result)) (\<lambda>result'. Inr (result', g')))))"

definition BPM_get_next_song_unguarded :: "store \<Rightarrow> string \<Rightarrow> rng \<Rightarrow> error + string \<times> rng" where
  "BPM_get_next_song_unguarded st song_id g =
     bindE (get_similar_bpm_songs (users_file st) song_id) (\<lambda>songs.
       BPM_select_unguarded st songs g)"

section \<open>\<open>UAS\<close>, the user activity simulator\<close>

text \<open>
  The loop \<open>while len(self.active_users) < count: self.active_users.add(random.randint(1, 50))\<close>.
  It runs for as long as the draws repeat, so it takes fuel: \<open>None\<close> is a loop that has not
  finished within \<open>fuel\<close> draws.
\<close>

fun fill_cohort :: "nat \<Rightarrow> nat \<Rightarrow> nat set \<Rightarrow> rng \<Rightarrow> (nat set \<times> rng) option" where
  "fill_cohort fuel count active_users g =
     (if card active_users < count then
        (case fuel of
           0 \<Rightarrow> None
         | Suc fuel' \<Rightarrow>
             (let (u, g') = randint 1 50 g
              in fill_cohort fuel' count (insert u active_users) g'))
      else Some (active_users, g))"

declare fill_cohort.simps [simp del]

text \<open>
  \<open>list(self.active_users)\<close> lists a \<open>set\<close> in the order of its hash table, which the
  language leaves open: the order is the parameter \<open>to_list\<close>, and \<open>lists_sets\<close> says that it
  lists every finite set, each element once.
\<close>

definition lists_sets :: "(nat set \<Rightarrow> nat list) \<Rightarrow> bool" where
  "lists_sets to_list = (\<forall>A. finite A \<longrightarrow> set (to_list A) = A \<and> distinct (to_list A))"

definition generate_active_users ::
  "(nat set \<Rightarrow> nat list) \<Rightarrow> nat \<Rightarrow> rng \<Rightarrow> (error + nat list \<times> rng) option" where
  "generate_active_users to_list fuel g =
     (case choice [10..<25] g of
        Inl e \<Rightarrow> Some (Inl e)
      | Inr (count, g1) \<Rightarrow>
          (case fill_cohort fuel count {} g1 of
             None \<Rightarrow> None
           | Some (active_users, g2) \<Rightarrow> Some (Inr (to_list active_users, g2))))"

definition generate_inactive_users ::
  "(nat set \<Rightarrow> nat list) \<Rightarrow> nat \<Rightarrow> rng \<Rightarrow> (error + nat list \<times> rng) option" where
  "generate_inactive_users to_list fuel g =
     (case generate_active_users to_list fuel g of
        None \<Rightarrow> None
      | Some (Inl e) \<Rightarrow> Some (Inl e)
      | Some (Inr (active_users, g')) \<Rightarrow>
          Some (Inr ([inactive_user \<leftarrow> [1..<511]. inactive_user \<notin> set active_users], g')))"

text \<open>
  \<open>active_users_behaviour\<close>: the \<open>return\<close> is inside the loop body, so the body runs for
  the first user only; on an empty cohort the function falls off its end and returns \<open>None\<close>.
  The result is the returned value, the store and the generator.
\<close>

definition active_users_behaviour ::
  "(nat set \<Rightarrow> nat list) \<Rightarrow> nat \<Rightarrow> store \<Rightarrow> string \<Rightarrow> rng
     \<Rightarrow> (error + nat option \<times> store \<times> rng) option" where
  "active_users_behaviour to_list fuel st song_id g =
     (case generate_active_users to_list fuel g of
        None \<Rightarrow> None
      | Some (Inl e) \<Rightarrow> Some (Inl e)
      | Some (Inr (active_users, g1)) \<Rightarrow>
          Some (case active_users of
                  [] \<Rightarrow> Inr (None, st, g1)
                | user # _ \<Rightarrow>
                    (let user_id = format_user_id user in
                     bindE (MFC_get_next_song st song_id g1) (\<lambda>(next_song, g2).
                       let st' = set_new_song st user_id song_id next_song
                       in Inr (Some (length active_users), st', g2)))))"

section \<open>\<open>MFCInterface\<close>\<close>

definition get_inner_data :: "entry table option \<Rightarrow> string \<Rightarrow> string \<Rightarrow> error + entry json_read" where
  "get_inner_data users data_type key =
     (if data_type \<notin> {''users'', ''songs'', ''genres''} then Inl ValueError
      else if data_type = ''users'' then Inr (get_users_data users)
      else if data_type = ''songs'' then Inr (get_songs_data users)
      else Inr Nothing)"

text \<open>The loop of \<open>original_recommendation\<close>; \<open>result\<close> is unbound until the key is met.\<close>

fun find_user_1 :: "string \<Rightarrow> entry table \<Rightarrow> string list option \<Rightarrow> error + string list option" where
  "find_user_1 song_id [] result = Inr result"
| "find_user_1 song_id ((k, v) # rest) result =
     (if k = ''user_id_1'' then
        bindE (bindE (field (played_songs v)) (\<lambda>ps. getitem ps song_id)) (\<lambda>r.
          find_user_1 song_id rest (Some r))
      else find_user_1 song_id rest result)"

definition original_recommendation :: "store \<Rightarrow> string \<Rightarrow> error + string" where
  "original_recommendation st song_id =
     bindE (get_inner_data (users_file st) ''songs'' ''user_id_1'') (\<lambda>data.
       case data of
         Nothing \<Rightarrow> Inl AttributeError
       | Entry e \<Rightarrow> Inl AttributeError
       | Whole d \<Rightarrow>
           bindE (find_user_1 song_id d None) (\<lambda>result.
             case result of None \<Rightarrow> Inl UnboundLocalError | Some r \<Rightarrow> first r))"

definition mfc_recommendation :: "store \<Rightarrow> string \<Rightarrow> rng \<Rightarrow> error + string \<times> rng" where
  "mfc_recommendation st song_id g = MFC_get_next_song st song_id g"

record session_stats =
  user_count :: nat
  active_users_count :: "nat option"
  original_song :: string
  default_song :: string
  mfc_song :: string
  users_count_and_choosen_songs :: mfc_users_data

text \<open>
  \<open>stats\<close>: the values of the \<open>dict\<close> display are computed in the order they are written, so
  the simulator's write comes before \<open>original_recommendation\<close> and \<open>mfc_recommendation\<close>.
\<close>

definition stats ::
  "(nat set \<Rightarrow> nat list) \<Rightarrow> nat \<Rightarrow> store \<Rightarrow> string \<Rightarrow> rng
     \<Rightarrow> (error + session_stats \<times> store \<times> rng) option" where
  "stats to_list fuel st song_id g =
     (let current_song = song_id in
      case MFC_get_next_songs st current_song of
        Inl e \<Rightarrow> Some (Inl e)
      | Inr recomended_songs \<Rightarrow>
          (case bindE (first recomended_songs) (\<lambda>r0.
                bindE (first (drop 1 recomended_songs)) (\<lambda>r1.
                  get_mfc_users_data (users_file st) current_song r0 r1)) of
             Inl e \<Rightarrow> Some (Inl e)
           | Inr active_users_data \<Rightarrow>
               (case active_users_behaviour to_list fuel st song_id g of
                  None \<Rightarrow> None
                | Some (Inl e) \<Rightarrow> Some (Inl e)
                | Some (Inr (count, st1, g1)) \<Rightarrow>
                    Some (bindE (original_recommendation st1 song_id) (\<lambda>default.
                          bindE (mfc_recommendation st1 song_id g1) (\<lambda>(mfc, g2).
                            Inr (\<lparr>user_count = 50,
                                  active_users_count = count,
                                  original_song = current_song,
                                  default_song = default,
                                  mfc_song = mfc,
                                  users_count_and_choosen_songs = active_users_data\<rparr>,
                                 st1, g2)))))))"

section \<open>Notions of the specification\<close>

text \<open>
  Following the specification's words, the normalised song identifier: the substring of a
  stored key after its final underscore (the whole key when it has none).
\<close>

definition after_final_underscore :: "string \<Rightarrow> string" where
  "after_final_underscore key = rev (takeWhile (\<lambda>c. c \<noteq> CHR ''_'') (rev key))"

text \<open>
  The user ids that the next \<open>fuel\<close> calls of \<open>randint(1, 50)\<close> yield from generator state
  \<open>g\<close>.
\<close>

definition cohort_draws :: "rng \<Rightarrow> nat \<Rightarrow> nat list" where
  "cohort_draws g fuel = map (\<lambda>i. 1 + fst g (snd g + i) mod 50) [0..<fuel]"











text \<open>
  The specification's invariant of the Probability Table: the weights for size \<open>n\<close> are \<open>n\<close>
  numbers, none negative and one positive; and a store whose Config table has such an entry.
\<close>

definition valid_weights :: "rat list \<Rightarrow> nat \<Rightarrow> bool" where
  "valid_weights ws n = (length ws = n \<and> list_all (\<lambda>w. 0 \<le> w) ws \<and> list_ex (\<lambda>w. 0 < w) ws)"

definition weights_configured :: "store \<Rightarrow> nat \<Rightarrow> bool" where
  "weights_configured st n =
     (case config_file st of
        None \<Rightarrow> False
      | Some cfg \<Rightarrow>
          (case map_of cfg (''songs_probabilities_set'' @ str n) of
             None \<Rightarrow> False
           | Some ws \<Rightarrow> valid_weights ws n))"


text \<open>
  Following the specification's words for \<open>mostPlayedNext\<close> and \<open>voteTally\<close>: a user's first
  recorded next-song after a song (none when the user has no history for it), the number of
  users whose first recorded next-song is a given candidate, and the candidates in the order
  the scan of the Users table meets them.
\<close>

definition recorded_next :: "entry \<Rightarrow> string \<Rightarrow> string option" where
  "recorded_next v song_id =
     (case played_songs v of
        None \<Rightarrow> None
      | Some ps \<Rightarrow> (case map_of ps song_id of Some (x # _) \<Rightarrow> Some x | _ \<Rightarrow> None))"

definition votes :: "entry table \<Rightarrow> string \<Rightarrow> string \<Rightarrow> nat" where
  "votes users song_id x = length (filter (\<lambda>(k, v). recorded_next v song_id = Some x) users)"

definition recorded_nexts :: "entry table \<Rightarrow> string \<Rightarrow> string list" where
  "recorded_nexts users song_id = List.map_filter (\<lambda>(k, v). recorded_next v song_id) users"

text \<open>
  \<open>x\<close> is seen before \<open>y\<close>: \<open>x\<close> occurs before the first occurrence of \<open>y\<close>. A candidate
  outranks another when it has more votes, or as many and was seen first.
\<close>

definition seen_before :: "'a list \<Rightarrow> 'a \<Rightarrow> 'a \<Rightarrow> bool" where
  "seen_before xs x y = (x \<in> set (takeWhile (\<lambda>z. z \<noteq> y) xs))"

definition outranks :: "entry table \<Rightarrow> string \<Rightarrow> string \<Rightarrow> string \<Rightarrow> bool" where
  "outranks users song_id x y =
     (votes users song_id y < votes users song_id x
      \<or> (votes users song_id x = votes users song_id y
          \<and> seen_before (recorded_nexts users song_id) x y))"

text \<open>
  A Users table, by the invariant of the data model: every record has a \<open>played_songs\<close>
  object, with no key twice and no empty sequence. \<open>all_played\<close> says that every user has a
  recorded next-song for the song.
\<close>

definition users_table :: "entry table \<Rightarrow> bool" where
  "users_table users =
     list_all (\<lambda>(k, v). case played_songs v of
                           None \<Rightarrow> False
                         | Some ps \<Rightarrow> is_dict ps \<and> list_all (\<lambda>(s, ns). ns \<noteq> []) ps) users"

definition all_played :: "entry table \<Rightarrow> string \<Rightarrow> bool" where
  "all_played users song_id = list_all (\<lambda>(k, v). recorded_next v song_id \<noteq> None) users"

text \<open>The elements of a list in order of first occurrence: the keys of a \<open>Counter\<close>.\<close>

definition firsts :: "'a list \<Rightarrow> 'a list" where
  "firsts xs = rev (remdups (rev xs))"

text \<open>
  A store for concrete runs: five users with a history for \<open>song_id_1\<close>, weights for three
  candidates; and the same store after the simulator has written \<open>song_id_2\<close> for
  \<open>user_id_5\<close>.
\<close>

definition example_users :: "entry table" where
  "example_users =
     [(''user_id_1'', \<lparr>played_songs = Some [(''song_id_1'', [''song_id_2''])], BPM = None, genre = None\<rparr>),
      (''user_id_2'', \<lparr>played_songs = Some [(''song_id_1'', [''song_id_2''])], BPM = None, genre = None\<rparr>),
      (''user_id_3'', \<lparr>played_songs = Some [(''song_id_1'', [''song_id_3''])], BPM = None, genre = None\<rparr>),
      (''user_id_4'', \<lparr>played_songs = Some [(''song_id_1'', [''song_id_4''])], BPM = None, genre = None\<rparr>),
      (''user_id_5'', \<lparr>played_songs = Some [(''song_id_1'', [''song_id_3''])], BPM = None, genre = None\<rparr>)]"

definition example_store :: store where
  "example_store = \<lparr>config_file = Some [(''songs_probabilities_set3'', [1/2, 3/10, 1/5])],
                 users_file = Some example_users\<rparr>"

definition example_users' :: "entry table" where
  "example_users' =
     [(''user_id_1'', \<lparr>played_songs = Some [(''song_id_1'', [''song_id_2''])], BPM = None, genre = None\<rparr>),
      (''user_id_2'', \<lparr>played_songs = Some [(''song_id_1'', [''song_id_2''])], BPM = None, genre = None\<rparr>),
      (''user_id_3'', \<lparr>played_songs = Some [(''song_id_1'', [''song_id_3''])], BPM = None, genre = None\<rparr>),
      (''user_id_4'', \<lparr>played_songs = Some [(''song_id_1'', [''song_id_4''])], BPM = None, genre = None\<rparr>),
      (''user_id_5'', \<lparr>played_songs = Some [(''song_id_1'', [''song_id_2''])], BPM = None, genre = None\<rparr>)]"

definition example_store' :: store where
  "example_store' = \<lparr>config_file = Some [(''songs_probabilities_set3'', [1/2, 3/10, 1/5])],
                 users_file = Some example_users'\<rparr>"

section \<open>Auxiliary facts\<close>

lemma guarded_slice: "(if b then take (length xs) xs else xs) = xs"
  by simp

lemma bisect_right_bounds:
  "lo \<le> hi \<Longrightarrow> lo \<le> bisect_right a x lo hi \<and> bisect_right a x lo hi \<le> hi"
proof (induction a x lo hi rule: bisect_right.induct)
  case (1 a x lo hi)
  show ?case
  proof (cases "lo < hi")
    case False
    with "1.prems" show ?thesis by (simp add: bisect_right.simps)
  next
    case True
    define mid where "mid = (lo + hi) div 2"
    have m: "lo \<le> mid" "mid < hi" using True by (auto simp: mid_def)
    show ?thesis
    proof (cases "x < a ! mid")
      case True
      with "1.IH"(1)[OF \<open>lo < hi\<close> mid_def[symmetric, THEN sym]] m \<open>lo < hi\<close>
      show ?thesis
        by (subst (1 2) bisect_right.simps) (simp add: mid_def Let_def)
    next
      case False
      with "1.IH"(2)[OF \<open>lo < hi\<close> mid_def[symmetric, THEN sym]] m \<open>lo < hi\<close>
      show ?thesis
        by (subst (1 2) bisect_right.simps) (simp add: mid_def Let_def)
    qed
  qed
qed

lemma length_accumulate_from: "length (accumulate_from t ws) = Suc (length ws)"
  by (induction ws arbitrary: t) auto

lemma length_accumulate: "length (accumulate ws) = length ws"
  by (cases ws) (auto simp: length_accumulate_from)

lemma last_accumulate_from: "last (accumulate_from t ws) = t + sum_list ws"
  by (induction ws arbitrary: t) (auto simp: length_accumulate_from algebra_simps dest: arg_cong[where f=length])

lemma last_accumulate: "ws \<noteq> [] \<Longrightarrow> last (accumulate ws) = sum_list ws"
  by (cases ws) (auto simp: last_accumulate_from)

lemma sum_list_pos:
  "\<forall>w\<in>set ws. (0::rat) \<le> w \<Longrightarrow> \<exists>w\<in>set ws. 0 < w \<Longrightarrow> 0 < sum_list ws"
proof (induction ws)
  case Nil
  then show ?case by simp
next
  case (Cons a ws)
  have nn: "0 \<le> sum_list ws" using Cons.prems(1) by (simp add: sum_list_nonneg)
  show ?case
  proof (cases "0 < a")
    case True
    with nn show ?thesis by (simp add: add_pos_nonneg)
  next
    case False
    with Cons.prems have "\<exists>w\<in>set ws. 0 < w" by auto
    with Cons.IH Cons.prems(1) have "0 < sum_list ws" by simp
    moreover have "0 \<le> a" using Cons.prems(1) by simp
    ultimately show ?thesis by (simp add: add_nonneg_pos)
  qed
qed

lemma choices_in_population:
  "choices population weights g = Inr (drawn, g') \<Longrightarrow>
     \<exists>s\<in>set population. drawn = [s]"
proof (cases weights)
  case (Entry ws)
  assume c: "choices population weights g = Inr (drawn, g')"
  let ?n = "length population"
  from c Entry have n: "accumulate ws \<noteq> []" "length (accumulate ws) = ?n"
    by (auto simp: choices_def Let_def split: if_splits prod.splits)
  then have pos: "0 < ?n" by (cases "accumulate ws") auto
  have "bisect_right (accumulate ws) x 0 (?n - 1) < ?n" for x
  proof -
    have "bisect_right (accumulate ws) x 0 (?n - 1) \<le> ?n - 1"
      using bisect_right_bounds[of 0 "?n - 1"] by simp
    with pos show ?thesis by linarith
  qed
  with c Entry show ?thesis
    by (auto simp: choices_def Let_def split: if_splits prod.splits)
next
  case (Whole cfg)
  assume "choices population weights g = Inr (drawn, g')"
  with Whole show ?thesis by (auto simp: choices_def Let_def split: if_splits)
next
  case Nothing
  assume "choices population weights g = Inr (drawn, g')"
  with Nothing show ?thesis
    by (auto simp: choices_def Let_def split: if_splits prod.splits)
qed

lemma choices_valid_weights:
  assumes "population \<noteq> []" "length ws = length population"
    and "\<forall>w\<in>set ws. 0 \<le> w" "\<exists>w\<in>set ws. 0 < w"
  shows "\<exists>s\<in>set population. choices population (Entry ws) g = Inr ([s], snd (random_py g))"
proof -
  have ne: "ws \<noteq> []" using assms(1,2) by auto
  have "0 < last (accumulate ws)"
    using sum_list_pos[OF assms(3,4)] ne by (simp add: last_accumulate)
  moreover have "accumulate ws \<noteq> []" using ne by (cases ws) (auto dest: arg_cong[where f=length] simp: length_accumulate_from)
  ultimately obtain drawn where c: "choices population (Entry ws) g = Inr (drawn, snd (random_py g))"
    using assms(2) by (simp add: choices_def Let_def length_accumulate case_prod_beta)
  from choices_in_population[OF c] c show ?thesis by auto
qed

lemma random_py_range: "0 \<le> fst (random_py g) \<and> fst (random_py g) < 1"
  by (simp add: random_py_def next_raw_def Let_def)

lemma split_nonempty: "split c s \<noteq> []"
  by (induction s) (auto split: list.splits)

lemma split_no_sep: "c \<notin> set s \<Longrightarrow> split c s = [s]"
  by (induction s) (auto split: list.splits)

lemma split_sep: "c \<in> set s \<Longrightarrow> 2 \<le> length (split c s)"
  by (induction s) (auto split: list.splits simp: split_nonempty split_no_sep)

lemma last_split: "last (split c s) = rev (takeWhile (\<lambda>x. x \<noteq> c) (rev s))"
proof (induction s)
  case Nil
  then show ?case by simp
next
  case (Cons x xs)
  show ?case
  proof (cases "x = c")
    case True
    then show ?thesis using Cons.IH by (simp add: split_nonempty takeWhile_append)
  next
    case False
    show ?thesis
    proof (cases "c \<in> set xs")
      case True
      from split_sep[OF True] obtain p q ps where "split c xs = p # q # ps"
        by (cases "split c xs" rule: list.exhaust; cases "tl (split c xs)") auto
      with True False Cons.IH show ?thesis by (auto simp: takeWhile_append)
    next
      case notin: False
      with False show ?thesis by (simp add: split_no_sep takeWhile_append)
    qed
  qed
qed

lemma after_final_underscore_suffix:
  "CHR ''_'' \<notin> set (after_final_underscore key)
   \<and> (key = after_final_underscore key \<or> (\<exists>p. key = p @ CHR ''_'' # after_final_underscore key))"
proof -
  let ?P = "\<lambda>c. c \<noteq> CHR ''_''"
  have a: "CHR ''_'' \<notin> set (takeWhile ?P (rev key))"
    using set_takeWhileD by fastforce
  have "rev key = takeWhile ?P (rev key) @ dropWhile ?P (rev key)" by simp
  then have k: "key = rev (dropWhile ?P (rev key)) @ rev (takeWhile ?P (rev key))"
    by (metis rev_append rev_rev_ident)
  have a': "CHR ''_'' \<notin> set (after_final_underscore key)"
    using a by (simp add: after_final_underscore_def)
  show ?thesis
  proof (cases "dropWhile ?P (rev key)")
    case Nil
    with k have "key = after_final_underscore key"
      by (simp add: after_final_underscore_def)
    with a' show ?thesis by blast
  next
    case (Cons y ys)
    then have "y = CHR ''_''" using hd_dropWhile[of ?P "rev key"] by auto
    with Cons k have "key = rev ys @ CHR ''_'' # after_final_underscore key"
      by (simp add: after_final_underscore_def)
    with a' show ?thesis by blast
  qed
qed

lemma fill_cohort_result:
  "finite A \<Longrightarrow> card A \<le> count \<Longrightarrow> fill_cohort fuel count A g = Some (A', g') \<Longrightarrow>
     finite A' \<and> card A' = count \<and> A \<subseteq> A' \<and> A' - A \<subseteq> {1..50}"
proof (induction fuel arbitrary: A g)
  case 0
  then show ?case by (auto simp: fill_cohort.simps split: if_splits)
next
  case (Suc fuel)
  show ?case
  proof (cases "card A < count")
    case False
    with Suc.prems show ?thesis by (auto simp: fill_cohort.simps split: if_splits)
  next
    case True
    obtain u g1 where r: "randint 1 50 g = (u, g1)" by (cases "randint 1 50 g")
    then have u: "1 \<le> u" "u \<le> 50" by (auto simp: randint_def next_raw_def Let_def)
    from True r Suc.prems(3) have f: "fill_cohort fuel count (insert u A) g1 = Some (A', g')"
      by (subst (asm) fill_cohort.simps) simp
    have "card (insert u A) \<le> count" using True Suc.prems(1) by (simp add: card_insert_if)
    with Suc.IH[OF _ _ f] Suc.prems(1)
    have "finite A' \<and> card A' = count \<and> insert u A \<subseteq> A' \<and> A' - insert u A \<subseteq> {1..50}" by simp
    with u show ?thesis by auto
  qed
qed

lemma cohort_draws_Suc:
  "set (cohort_draws g (Suc fuel)) =
     insert (1 + fst g (snd g) mod 50) (set (cohort_draws (fst g, Suc (snd g)) fuel))"
proof -
  have "[0..<Suc fuel] = 0 # map Suc [0..<fuel]"
    by (simp add: map_Suc_upt upt_conv_Cons del: upt_Suc)
  then have "cohort_draws g (Suc fuel) =
      (1 + fst g (snd g) mod 50) # cohort_draws (fst g, Suc (snd g)) fuel"
    unfolding cohort_draws_def by (simp add: comp_def del: upt_Suc)
  then show ?thesis by simp
qed

lemma fill_cohort_enough_fuel:
  "finite A \<Longrightarrow> count \<le> card (A \<union> set (cohort_draws g fuel)) \<Longrightarrow>
     fill_cohort fuel count A g \<noteq> None"
proof (induction fuel arbitrary: A g)
  case 0
  then show ?case by (simp add: fill_cohort.simps cohort_draws_def)
next
  case (Suc fuel)
  show ?case
  proof (cases "card A < count")
    case False
    then show ?thesis by (simp add: fill_cohort.simps)
  next
    case True
    let ?u = "1 + fst g (snd g) mod 50"
    have "A \<union> set (cohort_draws g (Suc fuel)) =
            insert ?u A \<union> set (cohort_draws (fst g, Suc (snd g)) fuel)"
      by (simp add: cohort_draws_Suc)
    with Suc.prems have "count \<le> card (insert ?u A \<union> set (cohort_draws (fst g, Suc (snd g)) fuel))"
      by simp
    with Suc.IH[of "insert ?u A" "(fst g, Suc (snd g))"] Suc.prems(1)
    have "fill_cohort fuel count (insert ?u A) (fst g, Suc (snd g)) \<noteq> None" by simp
    with True show ?thesis
      by (subst fill_cohort.simps) (simp add: randint_def next_raw_def Let_def)
  qed
qed




lemma map_insort_key:
  "f x = h (g x) \<Longrightarrow> \<forall>y\<in>set ys. f y = h (g y) \<Longrightarrow>
     map g (insort_key f x ys) = insort_key h (g x) (map g ys)"
  by (induction ys) auto

lemma map_sort_key:
  "\<forall>x\<in>set xs. f x = h (g x) \<Longrightarrow> map g (sort_key f xs) = sort_key h (map g xs)"
  by (induction xs) (auto simp: map_insort_key)










lemma weights_configuredD:
  assumes "weights_configured st n"
  obtains cfg ws where "config_file st = Some cfg"
    and "map_of cfg (''songs_probabilities_set'' @ str n) = Some ws"
    and "length ws = n" and "\<forall>w\<in>set ws. 0 \<le> w" and "\<exists>w\<in>set ws. 0 < w"
  using assms
  by (auto simp: weights_configured_def valid_weights_def list_all_iff list_ex_iff
      split: option.splits)

lemma played_first_recorded:
  "played_first v song_id = Inr x \<longleftrightarrow> recorded_next v song_id = Some x"
  by (auto simp: played_first_def recorded_next_def bindE_def field_def getitem_def first_def
      split: option.splits list.splits)

lemma tally_votes:
  "all_played users song_id \<Longrightarrow>
     tally song_id r1 r2 users c1 c2 =
       Inr (c1 + votes users song_id r1, c2 + (if r1 = r2 then 0 else votes users song_id r2))"
proof (induction users arbitrary: c1 c2)
  case Nil
  then show ?case by (simp add: votes_def)
next
  case (Cons p users)
  obtain k v where p: "p = (k, v)" by (cases p)
  from Cons.prems p obtain x where x: "recorded_next v song_id = Some x"
    by (auto simp: all_played_def)
  then have pf: "played_first v song_id = Inr x" by (simp add: played_first_recorded)
  from Cons.prems have "all_played users song_id" by (simp add: all_played_def)
  note IH = Cons.IH[OF this]
  show ?case using p x pf IH by (auto simp: votes_def)
qed

lemma firsts_snoc: "firsts (xs @ [x]) = (if x \<in> set xs then firsts xs else firsts xs @ [x])"
  by (simp add: firsts_def)

lemma set_firsts: "set (firsts xs) = set xs"
  by (simp add: firsts_def)

lemma distinct_firsts: "distinct (firsts xs)"
  by (simp add: firsts_def)

lemma seen_before_firsts: "seen_before (firsts xs) x y = seen_before xs x y"
proof (induction xs rule: rev_induct)
  case Nil
  then show ?case by (simp add: firsts_def)
next
  case (snoc a xs)
  let ?P = "\<lambda>z. z \<noteq> y"
  from snoc have IH: "x \<in> set (takeWhile ?P (firsts xs)) \<longleftrightarrow> x \<in> set (takeWhile ?P xs)"
    by (simp add: seen_before_def)
  show ?case
  proof (cases "y \<in> set xs")
    case True
    then have t1: "takeWhile ?P (xs @ zs) = takeWhile ?P xs" for zs
      by (intro takeWhile_append1[of y]) simp_all
    from True have "y \<in> set (firsts xs)" by (simp add: set_firsts)
    then have t2: "takeWhile ?P (firsts xs @ zs) = takeWhile ?P (firsts xs)" for zs
      by (intro takeWhile_append1[of y]) simp_all
    show ?thesis using IH by (simp add: seen_before_def firsts_snoc t1 t2)
  next
    case False
    then have t1: "takeWhile ?P (xs @ zs) = xs @ takeWhile ?P zs" for zs
      by (intro takeWhile_append2) auto
    from False have "y \<notin> set (firsts xs)" by (simp add: set_firsts)
    then have t2: "takeWhile ?P (firsts xs @ zs) = firsts xs @ takeWhile ?P zs" for zs
      by (intro takeWhile_append2) auto
    have t3: "takeWhile ?P (firsts xs) = firsts xs"
      using t2[of "[]"] by simp
    show ?thesis by (auto simp: seen_before_def firsts_snoc t1 t2 t3 set_firsts)
  qed
qed

lemma Counter_snoc: "Counter (xs @ [x]) = counter_add x (Counter xs)"
  by (simp add: Counter_def)

lemma Counter_keys_counts:
  "map fst (Counter xs) = firsts xs
   \<and> (\<forall>x. map_of (Counter xs) x = (if x \<in> set xs then Some (count_list xs x) else None))"
proof (induction xs rule: rev_induct)
  case Nil
  then show ?case by (simp add: Counter_def firsts_def)
next
  case (snoc a xs)
  let ?c = "Counter xs"
  from snoc have k: "map fst ?c = firsts xs"
    and m: "\<And>x. map_of ?c x = (if x \<in> set xs then Some (count_list xs x) else None)"
    by simp_all
  show ?case
  proof (cases "a \<in> set xs")
    case True
    then have ca: "counter_add a ?c = AList.update a (count_list xs a + 1) ?c"
      by (simp add: counter_add_def m)
    have "a \<in> set (map fst ?c)" using True k by (simp add: set_firsts)
    then have "map fst (counter_add a ?c) = firsts (xs @ [a])"
      using True k by (simp add: ca update_keys firsts_snoc)
    moreover have "map_of (counter_add a ?c) x
        = (if x \<in> set (xs @ [a]) then Some (count_list (xs @ [a]) x) else None)" for x
      using True by (simp add: ca update_conv' m)
    ultimately show ?thesis by (simp only: Counter_snoc) simp
  next
    case False
    then have ca: "counter_add a ?c = ?c @ [(a, 1)]"
      by (simp add: counter_add_def m)
    have "map fst (counter_add a ?c) = firsts (xs @ [a])"
      using False k by (simp add: ca firsts_snoc)
    moreover have "map_of (counter_add a ?c) x
        = (if x \<in> set (xs @ [a]) then Some (count_list (xs @ [a]) x) else None)" for x
      using False by (auto simp: ca m map_add_def split: option.splits)
    ultimately show ?thesis by (simp only: Counter_snoc) simp
  qed
qed

lemma Counter_items:
  "Counter xs = map (\<lambda>x. (x, count_list xs x)) (firsts xs)"
proof -
  let ?c = "Counter xs"
  have k: "map fst ?c = firsts xs"
    and m: "\<And>x. map_of ?c x = (if x \<in> set xs then Some (count_list xs x) else None)"
    using Counter_keys_counts[of xs] by simp_all
  have d: "distinct (map fst ?c)" by (simp add: k distinct_firsts)
  have "snd p = count_list xs (fst p)" if "p \<in> set ?c" for p
  proof -
    from that d have "map_of ?c (fst p) = Some (snd p)" by simp
    then show ?thesis by (simp add: m split: if_splits)
  qed
  then have "map (\<lambda>p. (fst p, count_list xs (fst p))) ?c = ?c"
    by (intro map_idI) (simp add: prod_eq_iff)
  then have "?c = map (\<lambda>x. (x, count_list xs x)) (map fst ?c)" by (simp add: comp_def)
  then show ?thesis by (simp only: k)
qed

lemma sorted_wrt_insort_key:
  assumes "sorted_wrt R ys" and "sorted (map f ys)"
    and "\<forall>y\<in>set ys. (f a \<le> f y \<longrightarrow> R a y) \<and> (f y < f a \<longrightarrow> R y a)"
  shows "sorted_wrt R (insort_key f a ys)"
  using assms
proof (induction ys)
  case Nil
  then show ?case by simp
next
  case (Cons y ys)
  show ?case
  proof (cases "f a \<le> f y")
    case True
    have "R a z" if "z \<in> set (y # ys)" for z
    proof -
      from Cons.prems(2) that have "f y \<le> f z" by auto
      with True have "f a \<le> f z" by simp
      with Cons.prems(3) that show ?thesis by blast
    qed
    with True Cons.prems(1) show ?thesis by simp
  next
    case False
    then have "R y a" using Cons.prems(3) by simp
    moreover have "sorted_wrt R (insort_key f a ys)"
      using Cons.prems by (intro Cons.IH) auto
    ultimately show ?thesis using False Cons.prems(1) by (auto simp: set_insort_key)
  qed
qed

lemma sorted_wrt_sort_key_stable:
  "distinct xs \<Longrightarrow>
     sorted_wrt (\<lambda>x y. f x < f y \<or> (f x = f y \<and> seen_before xs x y)) (sort_key f xs)"
proof (induction xs)
  case Nil
  then show ?case by simp
next
  case (Cons a xs)
  let ?R = "\<lambda>zs x y. f x < f y \<or> (f x = f y \<and> seen_before zs x y)"
  from Cons have IH: "sorted_wrt (?R xs) (sort_key f xs)" and a: "a \<notin> set xs" by simp_all
  have mono: "?R (a # xs) x y" if "x \<in> set (sort_key f xs)" "y \<in> set (sort_key f xs)" "?R xs x y" for x y
    using that a by (auto simp: seen_before_def)
  have 1: "sorted_wrt (?R (a # xs)) (sort_key f xs)"
    using IH mono by (rule sorted_wrt_mono_rel[rotated])
  have 2: "\<forall>y\<in>set (sort_key f xs). (f a \<le> f y \<longrightarrow> ?R (a # xs) a y) \<and> (f y < f a \<longrightarrow> ?R (a # xs) y a)"
    using a by (auto simp: seen_before_def)
  have "sorted_wrt (?R (a # xs)) (insort_key f a (sort_key f xs))"
    using 1 _ 2 by (rule sorted_wrt_insort_key) simp
  then show ?case by simp
qed

lemma scan_played_dict:
  "is_dict ps \<Longrightarrow> list_all (\<lambda>(s, ns). ns \<noteq> []) ps \<Longrightarrow>
     scan_played song_id ps acc =
       Inr (acc @ (case map_of ps song_id of Some (x # _) \<Rightarrow> [x] | _ \<Rightarrow> []))"
proof (induction ps arbitrary: acc)
  case Nil
  then show ?case by simp
next
  case (Cons p ps)
  obtain song next_song where p: "p = (song, next_song)" by (cases p)
  from Cons.prems p have d: "is_dict ps" "song \<notin> fst ` set ps"
    and ne: "next_song \<noteq> []" "list_all (\<lambda>(s, ns). ns \<noteq> []) ps"
    by (auto simp: is_dict_def)
  note IH = Cons.IH[OF d(1) ne(2)]
  show ?case
  proof (cases "song = song_id")
    case True
    from ne(1) obtain x rest where n: "next_song = x # rest" by (cases next_song) auto
    from True d(2) have "map_of ps song_id = None" by (simp add: map_of_eq_None_iff)
    with True n p IH[of "acc @ [x]"] show ?thesis by (simp add: first_def)
  next
    case False
    with p IH[of acc] show ?thesis by simp
  qed
qed

lemma scan_users_nexts:
  "users_table users \<Longrightarrow> scan_users song_id users acc = Inr (acc @ recorded_nexts users song_id)"
proof (induction users arbitrary: acc)
  case Nil
  then show ?case by (simp add: recorded_nexts_def map_filter_simps)
next
  case (Cons p users)
  obtain k v where p: "p = (k, v)" by (cases p)
  from Cons.prems p obtain ps where ps: "played_songs v = Some ps" "is_dict ps"
    "list_all (\<lambda>(s, ns). ns \<noteq> []) ps" and u: "users_table users"
    by (auto simp: users_table_def split: option.splits)
  note IH = Cons.IH[OF u]
  have r: "recorded_nexts (p # users) song_id =
      (case map_of ps song_id of Some (x # _) \<Rightarrow> [x] | _ \<Rightarrow> []) @ recorded_nexts users song_id"
    using p ps(1)
    by (simp add: recorded_nexts_def map_filter_simps recorded_next_def
        split: option.splits list.splits)
  show ?case using p ps(1) scan_played_dict[OF ps(2,3), of song_id acc] IH
    by (simp add: field_def r[unfolded p])
qed

lemma votes_count_list:
  "votes users song_id x = count_list (recorded_nexts users song_id) x"
  by (induction users)
    (auto simp: votes_def recorded_nexts_def map_filter_simps split: option.splits)

lemma write_json_frame:
  assumes "write_json (Some users) user_id song_id v = file'"
  shows "\<exists>users' e ps.
           file' = Some users'
         \<and> map_of users' user_id = Some e
         \<and> played_songs e = Some ps
         \<and> map_of ps song_id = Some v
         \<and> (\<forall>k. k \<noteq> user_id \<longrightarrow> map_of users' k = map_of users k)"
proof -
  obtain e data1 where sd: "setdefault user_id empty_entry users = (e, data1)"
    by (cases "setdefault user_id empty_entry users")
  let ?ps = "case played_songs e of Some p \<Rightarrow> p | None \<Rightarrow> []"
  let ?e' = "e\<lparr>played_songs := Some (AList.update song_id v ?ps)\<rparr>"
  let ?users' = "AList.update user_id ?e' data1"
  have f: "file' = Some ?users'"
    using assms sd by (simp add: write_json_def Let_def)
  have others: "map_of data1 k = map_of users k" if "k \<noteq> user_id" for k
    using sd that by (auto simp: setdefault_def map_add_def split: option.splits)
  have 1: "map_of ?users' user_id = Some ?e'" by (simp add: update_conv')
  have 2: "played_songs ?e' = Some (AList.update song_id v ?ps)" by simp
  have 3: "map_of (AList.update song_id v ?ps) song_id = Some v" by (simp add: update_conv')
  have 4: "\<forall>k. k \<noteq> user_id \<longrightarrow> map_of ?users' k = map_of users k"
    using others by (simp add: update_conv')
  from f 1 2 3 4 show ?thesis by blast
qed

lemma most_played_needs_file: "get_most_played_songs None song_id = Inl AttributeError"
  by (simp add: get_most_played_songs_def get_users_data_def read_json_def)

lemma MFC_get_next_song_file:
  assumes "MFC_get_next_song st song_id g = Inr r"
  shows "\<exists>users. users_file st = Some users"
proof (cases "users_file st")
  case None
  with assms show ?thesis
    by (simp add: MFC_get_next_song_def MFC_get_next_songs_def most_played_needs_file bindE_def)
next
  case (Some users)
  then show ?thesis by simp
qed

lemma active_users_behaviour_raises:
  assumes "generate_active_users to_list fuel g = Some (Inr (user # others, g1))"
    and "MFC_get_next_song st song_id g1 = Inl e"
  shows "active_users_behaviour to_list fuel st song_id g = Some (Inl e)"
  by (simp add: active_users_behaviour_def assms bindE_def)

lemma stats_user_count_aux:
  "stats to_list fuel st song_id g = Some (Inr (r, st', g')) \<Longrightarrow> user_count r = 50"
  by (auto simp: stats_def Let_def bindE_def split: sum.splits option.splits prod.splits)

lemma fill_cohort_step:
  "card A < count \<Longrightarrow> 0 < fuel \<Longrightarrow>
     fill_cohort fuel count A g =
       fill_cohort (fuel - 1) count (insert (1 + fst g (snd g) mod 50) A) (fst g, Suc (snd g))"
  by (cases fuel; subst fill_cohort.simps) (simp_all add: randint_def next_raw_def Let_def)

lemma fill_cohort_done:
  "\<not> card A < count \<Longrightarrow> fill_cohort fuel count A g = Some (A, g)"
  by (subst fill_cohort.simps) simp

lemma example_choice: "choice [10..<25] (Suc, 2) = Inr (13, (Suc, 3))"
  by (simp add: choice_def next_raw_def)

lemma example_fill:
  "fill_cohort 24 13 {} (Suc, 3)
     = Some ({17, 16, 15, 14, 13, 12, 11, 10, 9, 8, 7, 6, 5}, (Suc, 16))"
  by (simp add: fill_cohort_step fill_cohort_done card_insert_if)

lemma example_sorted:
  "sorted_list_of_set {17, 16, 15, 14, 13, 12, 11, 10, 9, 8, 7, 6, 5::nat}
     = [5, 6, 7, 8, 9, 10, 11, 12, 13, 14, 15, 16, 17]"
  by (simp add: sorted_list_of_set_insert)

lemma example_cohort:
  "generate_active_users sorted_list_of_set 24 (Suc, 2)
     = Some (Inr ([5, 6, 7, 8, 9, 10, 11, 12, 13, 14, 15, 16, 17], (Suc, 16)))"
  unfolding generate_active_users_def example_choice by (simp add: example_fill example_sorted)

lemma example_most_played:
  "get_most_played_songs (Some example_users) ''song_id_1''
     = Inr [''song_id_2'', ''song_id_3'', ''song_id_4'']"
  by code_simp

lemma example_most_played':
  "get_most_played_songs (Some example_users') ''song_id_1''
     = Inr [''song_id_2'', ''song_id_3'', ''song_id_4'']"
  by code_simp

lemma example_weights:
  "get_songs_probabilities_data (Some [(''songs_probabilities_set3'', [1/2, 3/10, 1/5])]) 3
     = Entry [1/2, 3/10, 1/5]"
  by (simp add: get_songs_probabilities_data_def read_json_def str.simps digit_char_def)

lemma example_bisect: "0 \<le> x \<Longrightarrow> x < 1/2 \<Longrightarrow> bisect_right [1/2, 4/5, 1] x 0 2 = 0"
  by (simp add: bisect_right.simps[of _ _ 0] Let_def)

lemma example_draw:
  "n < 100 \<Longrightarrow>
     choices [''song_id_2'', ''song_id_3'', ''song_id_4''] (Entry [1/2, 3/10, 1/5]) (Suc, n)
       = Inr ([''song_id_2''], (Suc, Suc n))"
proof -
  assume n: "n < 100"
  have u: "random_py (Suc, n) = (of_nat (Suc n) / 2 ^ 53, (Suc, Suc n))"
    using n by (simp add: random_py_def next_raw_def)
  have "of_nat (Suc n) / 2 ^ 53 < (1/2 :: rat)"
    using n  by (simp add: divide_less_eq)
  then have "bisect_right [1/2, 4/5, 1] (of_nat (Suc n) / 2 ^ 53) 0 2 = 0"
    by (intro example_bisect) simp_all
  then have "bisect_right [1/2, 4/5, 1] (of_nat (Suc n) / 2 ^ 53) 0 (Suc (Suc 0)) = 0"
    by (simp only: numeral_2_eq_2)
  then show ?thesis
    by (simp add: choices_def u Let_def)
qed

lemma example_pick:
  assumes "config_file st = Some [(''songs_probabilities_set3'', [1/2, 3/10, 1/5])]"
    and "get_most_played_songs (users_file st) song_id
           = Inr [''song_id_2'', ''song_id_3'', ''song_id_4'']"
    and "n < 100"
  shows "MFC_get_next_song st song_id (Suc, n) = Inr (''song_id_2'', (Suc, Suc n))"
proof -
  let ?songs = "[''song_id_2'', ''song_id_3'', ''song_id_4'']"
  have l: "length ?songs = 3" by simp
  have "MFC_select st ?songs (Suc, n) = Inr (''song_id_2'', (Suc, Suc n))"
    unfolding MFC_select_def Let_def l assms(1) example_weights
    by (simp add: example_draw[OF assms(3)] bindE_def first_def)
  then show ?thesis
    by (simp add: MFC_get_next_song_def MFC_get_next_songs_def assms(2) bindE_def)
qed

lemma example_write:
  "set_new_song example_store (format_user_id 5) ''song_id_1'' ''song_id_2'' = example_store'"
  by (simp add: set_new_song_def example_store_def example_store'_def example_users_def
      example_users'_def write_json_def setdefault_def format_user_id_def str.simps
      digit_char_def)

lemma example_behaviour:
  "active_users_behaviour sorted_list_of_set 24 example_store ''song_id_1'' (Suc, 2)
     = Some (Inr (Some 13, example_store', (Suc, 17)))"
proof -
  have p: "MFC_get_next_song example_store ''song_id_1'' (Suc, 16)
      = Inr (''song_id_2'', (Suc, Suc 16))"
    by (rule example_pick) (simp_all add: example_store_def example_most_played)
  show ?thesis
    by (simp add: active_users_behaviour_def example_cohort p bindE_def example_write)
qed

lemma example_tally:
  "get_mfc_users_data (Some example_users) ''song_id_1'' ''song_id_2'' ''song_id_3''
     = Inr \<lparr>song_1 = (''song_id_2'', 2), song_2 = (''song_id_3'', 2)\<rparr>"
  by code_simp

lemma example_original:
  "original_recommendation example_store' ''song_id_1'' = Inr ''song_id_2''"
  by code_simp

lemma example_stats:
  "stats sorted_list_of_set 24 example_store ''song_id_1'' (Suc, 2)
     = Some (Inr (\<lparr>user_count = 50,
                    active_users_count = Some 13,
                    original_song = ''song_id_1'',
                    default_song = ''song_id_2'',
                    mfc_song = ''song_id_2'',
                    users_count_and_choosen_songs =
                      \<lparr>song_1 = (''song_id_2'', 2), song_2 = (''song_id_3'', 2)\<rparr>\<rparr>,
                  example_store', (Suc, 18)))"
proof -
  have p: "MFC_get_next_song example_store' ''song_id_1'' (Suc, 17)
      = Inr (''song_id_2'', (Suc, Suc 17))"
    by (rule example_pick) (simp_all add: example_store'_def example_most_played')
  have m: "MFC_get_next_songs example_store ''song_id_1''
      = Inr [''song_id_2'', ''song_id_3'', ''song_id_4'']"
    by (simp add: MFC_get_next_songs_def example_store_def example_most_played)
  have t: "get_mfc_users_data (users_file example_store) ''song_id_1'' ''song_id_2'' ''song_id_3''
     = Inr \<lparr>song_1 = (''song_id_2'', 2), song_2 = (''song_id_3'', 2)\<rparr>"
    by (simp add: example_store_def example_tally)
  show ?thesis
    by (simp add: stats_def m first_def bindE_def t example_behaviour example_original
        mfc_recommendation_def p)
qed

lemma example_user_count: "get_user_count (users_file example_store) = Inr 5"
  by (simp add: get_user_count_def read_json_def example_store_def example_users_def)

section \<open>Properties\<close>

text \<open>
  C4 (as the code has it). \<open>get_songs_probabilities_data\<close> never fails: with the Config file
  loaded, it returns the weight sequence stored under \<open>songs_probabilities_set<n>\<close> when that
  key is present, and the whole Config object when it is absent.
\<close>

theorem probabilities_present_or_whole:
  "get_songs_probabilities_data (Some cfg) n =
     (case map_of cfg (''songs_probabilities_set'' @ str n) of
        Some ws \<Rightarrow> Entry ws
      | None \<Rightarrow> Whole cfg)"
  by (simp add: get_songs_probabilities_data_def read_json_def)

text \<open>
  C4, counterexample to the claim as stated: the Config object below has no entry for size 2,
  and the lookup for size 2 does not fail, it returns the whole object.
\<close>

theorem probabilities_missing_no_failure:
  "map_of [(''songs_probabilities_set3'', [1/2, 3/10, 1/5 :: rat])]
       (''songs_probabilities_set'' @ str 2) = None
   \<and> get_songs_probabilities_data
       (Some [(''songs_probabilities_set3'', [1/2, 3/10, 1/5])]) 2
     = Whole [(''songs_probabilities_set3'', [1/2, 3/10, 1/5])]"
  by (simp add: get_songs_probabilities_data_def read_json_def str.simps digit_char_def)

text \<open>
  C7. Let the Config table hold a weight vector of length \<open>N\<close> for a candidate list of length
  \<open>N \<ge> 1\<close>, with at least one positive weight. Then whatever the weighted draw of
  \<open>MFC.get_next_song\<close> and of \<open>BPM.get_next_song\<close> returns is one of the candidates (for
  \<open>BPM\<close>, before its key is stripped); and when no weight is negative the draw does return.
\<close>

theorem weighted_selection_in_candidates:
  assumes "config_file st = Some cfg"
    and "map_of cfg (''songs_probabilities_set'' @ str (length songs)) = Some ws"
    and "songs \<noteq> []" and "length ws = length songs" and "\<exists>w\<in>set ws. 0 < w"
  shows "(\<forall>s g'. MFC_select st songs g = Inr (s, g') \<longrightarrow> s \<in> set songs)
       \<and> (\<forall>drawn g'. choices songs (get_songs_probabilities_data (config_file st) (length songs)) g
                         = Inr (drawn, g') \<longrightarrow> (\<exists>s\<in>set songs. drawn = [s]))
       \<and> (\<forall>r g'. BPM_select st songs g = Inr (r, g') \<longrightarrow>
                     (\<exists>s\<in>set songs. r = last (split (CHR ''_'') s)))
       \<and> ((\<forall>w\<in>set ws. 0 \<le> w) \<longrightarrow>
            (\<exists>s\<in>set songs.
               MFC_select st songs g = Inr (s, snd (random_py g))
             \<and> BPM_select st songs g = Inr (last (split (CHR ''_'') s), snd (random_py g))))"
proof -
  let ?p = "get_songs_probabilities_data (config_file st) (length songs)"
  have p: "?p = Entry ws"
    using assms(1,2) by (simp add: get_songs_probabilities_data_def read_json_def)
  have sel: "\<exists>s\<in>set songs. drawn = [s]" if "choices songs ?p g = Inr (drawn, g')" for drawn g'
    using choices_in_population[OF that] .
  have mfc: "MFC_select st songs g = bindE (choices songs ?p g) (\<lambda>(drawn, g').
         bindE (first drawn) (\<lambda>result. Inr (result, g')))"
    by (simp add: MFC_select_def Let_def guarded_slice)
  have bpm: "BPM_select st songs g = bindE (choices songs ?p g) (\<lambda>(drawn, g').
         bindE (first drawn) (\<lambda>result.
         bindE (last_item (split (CHR ''_'') result)) (\<lambda>result'. Inr (result', g'))))"
    by (simp add: BPM_select_def Let_def)
  have 1: "\<forall>s g'. MFC_select st songs g = Inr (s, g') \<longrightarrow> s \<in> set songs"
  proof (intro allI impI)
    fix s g' assume "MFC_select st songs g = Inr (s, g')"
    then obtain drawn g1 where c: "choices songs ?p g = Inr (drawn, g1)"
      and r: "bindE (first drawn) (\<lambda>result. Inr (result, g1)) = Inr (s, g')"
      unfolding mfc by (auto simp: bindE_def split: sum.splits)
    from sel[OF c] obtain x where "x \<in> set songs" "drawn = [x]" by auto
    with r show "s \<in> set songs" by (simp add: bindE_def first_def)
  qed
  have 3: "\<forall>r g'. BPM_select st songs g = Inr (r, g') \<longrightarrow>
                     (\<exists>s\<in>set songs. r = last (split (CHR ''_'') s))"
  proof (intro allI impI)
    fix r g' assume "BPM_select st songs g = Inr (r, g')"
    then obtain drawn g1 where c: "choices songs ?p g = Inr (drawn, g1)"
      and r: "bindE (first drawn) (\<lambda>result.
         bindE (last_item (split (CHR ''_'') result)) (\<lambda>result'. Inr (result', g1))) = Inr (r, g')"
      unfolding bpm by (auto simp: bindE_def split: sum.splits)
    from sel[OF c] obtain x where "x \<in> set songs" "drawn = [x]" by auto
    with r show "\<exists>s\<in>set songs. r = last (split (CHR ''_'') s)"
      by (auto simp: bindE_def first_def last_item_def split_nonempty)
  qed
  have 4: "\<exists>s\<in>set songs.
               MFC_select st songs g = Inr (s, snd (random_py g))
             \<and> BPM_select st songs g = Inr (last (split (CHR ''_'') s), snd (random_py g))"
    if nn: "\<forall>w\<in>set ws. 0 \<le> w"
  proof -
    from choices_valid_weights[OF assms(3) assms(4) nn assms(5), of g]
    obtain s where "s \<in> set songs" "choices songs (Entry ws) g = Inr ([s], snd (random_py g))"
      by auto
    then show ?thesis unfolding mfc bpm p
      by (auto simp: bindE_def first_def last_item_def split_nonempty)
  qed
  from 1 sel 3 4 show ?thesis by blast
qed

theorem weighted_selection_in_candidates_witness:
  "\<exists>s\<in>set [''song_id_2'', ''song_id_3'', ''song_id_4''].
     MFC_select \<lparr>config_file = Some [(''songs_probabilities_set3'', [1/2, 3/10, 1/5])],
                 users_file = None\<rparr>
       [''song_id_2'', ''song_id_3'', ''song_id_4''] (Suc, 0)
     = Inr (s, snd (random_py (Suc, 0)))"
proof -
  let ?cfg = "[(''songs_probabilities_set3'', [1/2, 3/10, 1/5 :: rat])]"
  let ?st = "\<lparr>config_file = Some ?cfg, users_file = None\<rparr>"
  let ?songs = "[''song_id_2'', ''song_id_3'', ''song_id_4'']"
  have h1: "config_file ?st = Some ?cfg" by simp
  have h2: "map_of ?cfg (''songs_probabilities_set'' @ str (length ?songs))
      = Some [1/2, 3/10, 1/5]" by (simp add: str.simps digit_char_def)
  have h3: "?songs \<noteq> []" by simp
  have h4: "length [1/2, 3/10, 1/5 :: rat] = length ?songs" by simp
  have h5: "\<exists>w\<in>set [1/2, 3/10, 1/5 :: rat]. 0 < w" by simp
  have h6: "\<forall>w\<in>set [1/2, 3/10, 1/5 :: rat]. 0 \<le> w" by simp
  from weighted_selection_in_candidates[OF h1 h2 h3 h4 h5, of "(Suc, 0)"] h6
  show ?thesis by blast
qed

text \<open>
  C10. The guarded slices are no-ops: the selection steps of \<open>MFC.get_next_song\<close> and
  \<open>BPM.get_next_song\<close>, and the two functions themselves, equal their versions without the
  guard, for every candidate list.
\<close>

theorem guarded_slice_noop:
  "MFC_select st songs g = MFC_select_unguarded st songs g
   \<and> BPM_select st songs g = BPM_select_unguarded st songs g
   \<and> MFC_get_next_song st song_id g = MFC_get_next_song_unguarded st song_id g
   \<and> BPM_get_next_song st song_id g = BPM_get_next_song_unguarded st song_id g"
  by (simp add: MFC_select_def MFC_select_unguarded_def BPM_select_def BPM_select_unguarded_def
      MFC_get_next_song_def MFC_get_next_song_unguarded_def BPM_get_next_song_def
      BPM_get_next_song_unguarded_def Let_def guarded_slice)

text \<open>
  C5. When the generator yields at least 24 different user ids within the fuel given,
  \<open>generate_active_users\<close> returns a cohort of pairwise distinct ids, each in \<open>[1, 50]\<close>, of
  size in \<open>[10, 24]\<close>; and \<open>generate_inactive_users\<close>, drawing its cohort from the same
  generator state, returns exactly the ids of \<open>[1, 510]\<close> outside that cohort, so that the two
  partition \<open>[1, 510]\<close>.
\<close>

theorem cohort_partition:
  assumes "lists_sets to_list"
    and "24 \<le> card (set (cohort_draws (fst g, Suc (snd g)) fuel))"
  shows "\<exists>active g'.
           generate_active_users to_list fuel g = Some (Inr (active, g'))
         \<and> distinct active \<and> set active \<subseteq> {1..50}
         \<and> 10 \<le> length active \<and> length active \<le> 24
         \<and> (\<exists>inactive.
              generate_inactive_users to_list fuel g = Some (Inr (inactive, g'))
            \<and> inactive = [u \<leftarrow> [1..<511]. u \<notin> set active]
            \<and> distinct inactive
            \<and> set active \<union> set inactive = {1..510}
            \<and> set active \<inter> set inactive = {})"
proof -
  let ?count = "10 + fst g (snd g) mod 15"
  let ?g1 = "(fst g, Suc (snd g))"
  have c: "choice [10..<25] g = Inr (?count, ?g1)"
  proof -
    have "[10..<25] ! (fst g (snd g) mod 15) = ?count"
      by (subst nth_upt) simp_all
    then show ?thesis by (simp add: choice_def next_raw_def Let_def)
  qed
  have cnt: "10 \<le> ?count" "?count \<le> 24" by simp_all
  have "card ({} \<union> set (cohort_draws ?g1 fuel)) \<ge> ?count" using assms(2) cnt by simp
  from fill_cohort_enough_fuel[OF _ this]
  obtain A g' where f: "fill_cohort fuel ?count {} ?g1 = Some (A, g')" by auto
  from fill_cohort_result[OF _ _ f]
  have A: "finite A" "card A = ?count" "A \<subseteq> {1..50}" by auto
  let ?active = "to_list A"
  have l: "set ?active = A" "distinct ?active"
    using assms(1) A(1) by (auto simp: lists_sets_def)
  have len: "length ?active = ?count" using l A(2) by (metis distinct_card)
  have ga: "generate_active_users to_list fuel g = Some (Inr (?active, g'))"
    unfolding generate_active_users_def c by (simp add: f)
  have gi: "generate_inactive_users to_list fuel g =
      Some (Inr ([u \<leftarrow> [1..<511]. u \<notin> set ?active], g'))"
    by (simp add: generate_inactive_users_def ga)
  have s: "set ?active \<subseteq> {1..50}" using l A(3) by simp
  have u: "set ?active \<union> set [u \<leftarrow> [1..<511]. u \<notin> set ?active] = {1..510}"
    using s by auto
  have i: "set ?active \<inter> set [u \<leftarrow> [1..<511]. u \<notin> set ?active] = {}" by auto
  have len10: "10 \<le> length ?active" "length ?active \<le> 24"
    using len cnt by linarith+
  have inner: "\<exists>inactive.
              generate_inactive_users to_list fuel g = Some (Inr (inactive, g'))
            \<and> inactive = [u \<leftarrow> [1..<511]. u \<notin> set ?active]
            \<and> distinct inactive
            \<and> set ?active \<union> set inactive = {1..510}
            \<and> set ?active \<inter> set inactive = {}"
    using gi u i by (intro exI[of _ "[u \<leftarrow> [1..<511]. u \<notin> set ?active]"] conjI) simp_all
  show ?thesis
    using ga l(2) s len10 inner by blast
qed

theorem cohort_partition_witness:
  "\<exists>active g'.
     generate_active_users sorted_list_of_set 24 (Suc, 0) = Some (Inr (active, g'))
   \<and> distinct active \<and> set active \<subseteq> {1..50}
   \<and> 10 \<le> length active \<and> length active \<le> 24
   \<and> (\<exists>inactive.
        generate_inactive_users sorted_list_of_set 24 (Suc, 0) = Some (Inr (inactive, g'))
      \<and> inactive = [u \<leftarrow> [1..<511]. u \<notin> set active]
      \<and> distinct inactive
      \<and> set active \<union> set inactive = {1..510}
      \<and> set active \<inter> set inactive = {})"
proof -
  have h1: "lists_sets sorted_list_of_set" by (simp add: lists_sets_def)
  have h2: "24 \<le> card (set (cohort_draws (fst (Suc, 0::nat), Suc (snd (Suc, 0::nat))) 24))"
    by code_simp
  from cohort_partition[OF h1 h2] show ?thesis .
qed




text \<open>
  C9. For every song id whose same-genre candidate list is not empty, whatever
  \<open>BPM.get_next_song\<close> returns is the drawn candidate's stored key with its prefix stripped:
  the substring after the key's final underscore, which holds no underscore. With valid weights
  configured for the number of candidates, it does return.
\<close>

theorem bpm_result_normalised:
  assumes "get_similar_bpm_songs (users_file st) song_id = Inr songs" and "songs \<noteq> []"
  shows "(\<forall>r g'. BPM_get_next_song st song_id g = Inr (r, g') \<longrightarrow>
            (\<exists>c\<in>set songs.
               choices songs (get_songs_probabilities_data (config_file st) (length songs)) g
                 = Inr ([c], g')
             \<and> r = after_final_underscore c
             \<and> CHR ''_'' \<notin> set r
             \<and> (c = r \<or> (\<exists>p. c = p @ CHR ''_'' # r))))
       \<and> (weights_configured st (length songs) \<longrightarrow>
            (\<exists>r g'. BPM_get_next_song st song_id g = Inr (r, g')))"
proof -
  let ?p = "get_songs_probabilities_data (config_file st) (length songs)"
  have bpm: "BPM_get_next_song st song_id g = bindE (choices songs ?p g) (\<lambda>(drawn, g').
         bindE (first drawn) (\<lambda>result.
         bindE (last_item (split (CHR ''_'') result)) (\<lambda>result'. Inr (result', g'))))"
    by (simp add: BPM_get_next_song_def assms(1) bindE_def BPM_select_def Let_def)
  have 1: "\<exists>c\<in>set songs. choices songs ?p g = Inr ([c], g')
             \<and> r = after_final_underscore c
             \<and> CHR ''_'' \<notin> set r
             \<and> (c = r \<or> (\<exists>p. c = p @ CHR ''_'' # r))"
    if "BPM_get_next_song st song_id g = Inr (r, g')" for r g'
  proof -
    from that obtain drawn g1 where c: "choices songs ?p g = Inr (drawn, g1)"
      and r: "bindE (first drawn) (\<lambda>result.
         bindE (last_item (split (CHR ''_'') result)) (\<lambda>result'. Inr (result', g1))) = Inr (r, g')"
      unfolding bpm by (auto simp: bindE_def split: sum.splits)
    from choices_in_population[OF c] obtain x where x: "x \<in> set songs" "drawn = [x]" by auto
    with r have e: "r = after_final_underscore x" "g' = g1"
      by (auto simp: bindE_def first_def last_item_def split_nonempty last_split
          after_final_underscore_def)
    from after_final_underscore_suffix[of x] e(1)
    have "CHR ''_'' \<notin> set r \<and> (x = r \<or> (\<exists>p. x = p @ CHR ''_'' # r))" by simp
    with x c e show ?thesis by blast
  qed
  have 2: "\<exists>r g'. BPM_get_next_song st song_id g = Inr (r, g')"
    if "weights_configured st (length songs)"
  proof -
    from that obtain cfg ws where w: "config_file st = Some cfg"
      "map_of cfg (''songs_probabilities_set'' @ str (length songs)) = Some ws"
      "length ws = length songs" "\<forall>w\<in>set ws. 0 \<le> w" "\<exists>w\<in>set ws. 0 < w"
      by (rule weights_configuredD)
    have p: "?p = Entry ws"
      using w(1,2) by (simp add: get_songs_probabilities_data_def read_json_def)
    from choices_valid_weights[OF assms(2) w(3) w(4) w(5), of g]
    obtain s where "choices songs (Entry ws) g = Inr ([s], snd (random_py g))" by auto
    then show ?thesis unfolding bpm p
      by (simp add: bindE_def first_def last_item_def split_nonempty)
  qed
  from 1 2 show ?thesis by blast
qed

theorem bpm_result_normalised_witness:
  "\<exists>g'. BPM_get_next_song
      \<lparr>config_file = Some [(''songs_probabilities_set1'', [1])],
       users_file =
         Some [(''song_id_1'', \<lparr>played_songs = None, BPM = Some (PyInt 120), genre = Some ''rock''\<rparr>),
               (''song_id_2'', \<lparr>played_songs = None, BPM = Some (PyInt 121), genre = Some ''rock''\<rparr>),
               (''song_id_3'', \<lparr>played_songs = None, BPM = Some (PyInt 200), genre = Some ''pop''\<rparr>)]\<rparr>
      ''song_id_1'' (Suc, 0) = Inr (''2'', g')"
proof -
  let ?st = "\<lparr>config_file = Some [(''songs_probabilities_set1'', [1::rat])],
       users_file =
         Some [(''song_id_1'', \<lparr>played_songs = None, BPM = Some (PyInt 120), genre = Some ''rock''\<rparr>),
               (''song_id_2'', \<lparr>played_songs = None, BPM = Some (PyInt 121), genre = Some ''rock''\<rparr>),
               (''song_id_3'', \<lparr>played_songs = None, BPM = Some (PyInt 200), genre = Some ''pop''\<rparr>)]\<rparr>"
  have h1: "get_similar_bpm_songs (users_file ?st) ''song_id_1'' = Inr [''song_id_2'']"
    by code_simp
  have h2: "[''song_id_2''] \<noteq> []" by simp
  have h3: "weights_configured ?st (length [''song_id_2''])"
    by (simp add: weights_configured_def valid_weights_def str.simps digit_char_def)
  from bpm_result_normalised[OF h1 h2, of "(Suc, 0)"] h3
  obtain r g' where r: "BPM_get_next_song ?st ''song_id_1'' (Suc, 0) = Inr (r, g')"
    and "\<exists>c\<in>set [''song_id_2'']. r = after_final_underscore c"
    by blast
  then have "r = ''2''" by (simp add: after_final_underscore_def)
  with r show ?thesis by blast
qed

text \<open>
  C6 (as the code has it). On a Users table in which every user has a recorded next-song for
  \<open>song_id\<close>, \<open>get_mfc_users_data\<close> returns for the first candidate the number of users whose
  first recorded next-song is that candidate, and for the second candidate the number of users
  whose first recorded next-song is the second and not the first candidate (which is none when
  the two candidates are equal); users with any other next-song are ignored, and the two counts
  sum to at most the number of users.
\<close>

theorem vote_tally_counts:
  assumes "all_played users song_id"
  shows "get_mfc_users_data (Some users) song_id a b =
           Inr \<lparr>song_1 = (a, votes users song_id a),
                song_2 = (b, if a = b then 0 else votes users song_id b)\<rparr>
       \<and> votes users song_id a + (if a = b then 0 else votes users song_id b) \<le> length users"
proof -
  have "length (filter P users) + length (filter Q users) \<le> length users"
    if "\<forall>u. \<not> (P u \<and> Q u)" for P Q :: "string \<times> entry \<Rightarrow> bool"
    using that by (induction users) auto
  from this[of "\<lambda>(k, v). recorded_next v song_id = Some a" "\<lambda>(k, v). recorded_next v song_id = Some b"]
  have ne: "a \<noteq> b \<Longrightarrow> votes users song_id a + votes users song_id b \<le> length users"
    by (auto simp: votes_def)
  have le: "votes users song_id a \<le> length users" by (simp add: votes_def)
  have bound: "votes users song_id a + (if a = b then 0 else votes users song_id b) \<le> length users"
  proof (cases "a = b")
    case True
    then show ?thesis using le by simp
  next
    case False
    then show ?thesis using ne by simp
  qed
  have "get_mfc_users_data (Some users) song_id a b =
           Inr \<lparr>song_1 = (a, votes users song_id a),
                song_2 = (b, if a = b then 0 else votes users song_id b)\<rparr>"
    using tally_votes[OF assms, of a b 0 0]
    by (simp add: get_mfc_users_data_def read_json_def bindE_def)
  with bound show ?thesis by (rule conjI[rotated])
qed

text \<open>
  C6, counterexample to the claim as stated: the second user never played \<open>song_id_1\<close>, and the
  tally raises \<open>KeyError\<close> instead of ignoring that user.
\<close>

theorem vote_tally_missing_entry:
  "get_mfc_users_data
     (Some [(''user_id_1'', \<lparr>played_songs = Some [(''song_id_1'', [''song_id_2''])],
                             BPM = None, genre = None\<rparr>),
            (''user_id_2'', \<lparr>played_songs = Some [(''song_id_7'', [''song_id_2''])],
                             BPM = None, genre = None\<rparr>)])
     ''song_id_1'' ''song_id_2'' ''song_id_3'' = Inl KeyError"
  by (simp add: get_mfc_users_data_def read_json_def bindE_def played_first_def field_def
      getitem_def first_def)

theorem vote_tally_counts_witness:
  "get_mfc_users_data
     (Some [(''user_id_1'', \<lparr>played_songs = Some [(''song_id_1'', [''song_id_2''])],
                             BPM = None, genre = None\<rparr>),
            (''user_id_2'', \<lparr>played_songs = Some [(''song_id_1'', [''song_id_3'', ''song_id_2''])],
                             BPM = None, genre = None\<rparr>),
            (''user_id_3'', \<lparr>played_songs = Some [(''song_id_1'', [''song_id_4''])],
                             BPM = None, genre = None\<rparr>),
            (''user_id_4'', \<lparr>played_songs = Some [(''song_id_1'', [''song_id_2''])],
                             BPM = None, genre = None\<rparr>)])
     ''song_id_1'' ''song_id_2'' ''song_id_3''
   = Inr \<lparr>song_1 = (''song_id_2'', 2), song_2 = (''song_id_3'', 1)\<rparr>"
proof -
  let ?users = "[(''user_id_1'', \<lparr>played_songs = Some [(''song_id_1'', [''song_id_2''])],
                             BPM = None, genre = None\<rparr>),
            (''user_id_2'', \<lparr>played_songs = Some [(''song_id_1'', [''song_id_3'', ''song_id_2''])],
                             BPM = None, genre = None\<rparr>),
            (''user_id_3'', \<lparr>played_songs = Some [(''song_id_1'', [''song_id_4''])],
                             BPM = None, genre = None\<rparr>),
            (''user_id_4'', \<lparr>played_songs = Some [(''song_id_1'', [''song_id_2''])],
                             BPM = None, genre = None\<rparr>)]"
  have h: "all_played ?users ''song_id_1''" by (simp add: all_played_def recorded_next_def)
  from vote_tally_counts[OF h, of "''song_id_2''" "''song_id_3''"]
  show ?thesis by (simp add: votes_def recorded_next_def)
qed

text \<open>
  C1. On every Users table with at least three distinct candidate next-songs for \<open>song_id\<close>,
  \<open>get_most_played_songs\<close> returns exactly three distinct candidates, ordered by descending
  number of users whose first recorded next-song after \<open>song_id\<close> is the candidate, ties broken
  by first-seen order of the scan, and every other candidate ranks after the third. With fewer
  than three distinct candidates it fails (\<open>IndexError\<close>) and returns no shorter list.
\<close>

theorem most_played_top_three:
  assumes "users_table users"
  shows "(3 \<le> card (set (recorded_nexts users song_id)) \<longrightarrow>
            (\<exists>a b c.
               get_most_played_songs (Some users) song_id = Inr [a, b, c]
             \<and> distinct [a, b, c]
             \<and> set [a, b, c] \<subseteq> set (recorded_nexts users song_id)
             \<and> outranks users song_id a b
             \<and> outranks users song_id b c
             \<and> (\<forall>d\<in>set (recorded_nexts users song_id) - {a, b, c}. outranks users song_id c d)))
       \<and> (card (set (recorded_nexts users song_id)) < 3 \<longrightarrow>
            get_most_played_songs (Some users) song_id = Inl IndexError)"
proof -
  let ?cands = "recorded_nexts users song_id"
  let ?key = "\<lambda>item :: string \<times> nat. - int (snd item)"
  let ?f = "\<lambda>x. - int (count_list ?cands x)"
  let ?S = "sort_key ?key (Counter ?cands)"
  let ?R = "sort_key ?f (firsts ?cands)"
  have scan: "scan_users song_id users [] = Inr ?cands"
    using scan_users_nexts[OF assms, of song_id "[]"] by simp
  have g: "get_most_played_songs (Some users) song_id =
      (case take 3 ?S of
         m0 # m1 # m2 # _ \<Rightarrow> Inr [fst m0, fst m1, fst m2]
       | _ \<Rightarrow> Inl IndexError)"
    by (simp add: get_most_played_songs_def get_users_data_def read_json_def bindE_def scan
        most_common_def)
  have "map fst ?S = sort_key ?f (map fst (Counter ?cands))"
    by (rule map_sort_key) (simp add: Counter_items)
  then have SR: "map fst ?S = ?R" by (simp add: Counter_items comp_def)
  have len: "length ?S = card (set ?cands)"
    by (simp add: Counter_items) (metis distinct_card distinct_firsts set_firsts)
  have rel: "sorted_wrt (outranks users song_id) ?R"
  proof -
    have "sorted_wrt (\<lambda>x y. ?f x < ?f y \<or> (?f x = ?f y \<and> seen_before (firsts ?cands) x y)) ?R"
      using distinct_firsts by (rule sorted_wrt_sort_key_stable)
    moreover have "(\<lambda>x y. ?f x < ?f y \<or> (?f x = ?f y \<and> seen_before (firsts ?cands) x y))
        = outranks users song_id"
      by (auto simp: fun_eq_iff outranks_def votes_count_list seen_before_firsts)
    ultimately show ?thesis by simp
  qed
  have dR: "distinct ?R" by (simp add: distinct_firsts)
  have sR: "set ?R = set ?cands" by (simp add: set_firsts)
  have top: "\<exists>a b c.
               get_most_played_songs (Some users) song_id = Inr [a, b, c]
             \<and> distinct [a, b, c]
             \<and> set [a, b, c] \<subseteq> set ?cands
             \<and> outranks users song_id a b
             \<and> outranks users song_id b c
             \<and> (\<forall>d\<in>set ?cands - {a, b, c}. outranks users song_id c d)"
    if "3 \<le> card (set ?cands)"
  proof -
    from that len obtain m0 m1 m2 rest where S: "?S = m0 # m1 # m2 # rest"
      by (cases ?S rule: list.exhaust; cases "tl ?S"; cases "tl (tl ?S)") auto
    then have R: "?R = fst m0 # fst m1 # fst m2 # map fst rest"
      using SR by simp
    have res: "get_most_played_songs (Some users) song_id = Inr [fst m0, fst m1, fst m2]"
      unfolding g S by simp
    from dR R have d: "distinct [fst m0, fst m1, fst m2]" by simp
    from sR R have sub: "set [fst m0, fst m1, fst m2] \<subseteq> set ?cands" by auto
    from rel R have o: "outranks users song_id (fst m0) (fst m1)"
      "outranks users song_id (fst m1) (fst m2)"
      "\<forall>d\<in>set (map fst rest). outranks users song_id (fst m2) d"
      by simp_all
    have "d \<in> set (map fst rest)" if "d \<in> set ?cands - {fst m0, fst m1, fst m2}" for d
      using that sR R by auto
    with o(3) have others: "\<forall>d\<in>set ?cands - {fst m0, fst m1, fst m2}. outranks users song_id (fst m2) d"
      by blast
    from res d sub o(1,2) others show ?thesis by blast
  qed
  have few: "get_most_played_songs (Some users) song_id = Inl IndexError"
    if "card (set ?cands) < 3"
  proof -
    from that len have "length ?S < 3" by simp
    then have "take 3 ?S = ?S" by simp
    with \<open>length ?S < 3\<close> show ?thesis unfolding g
      by (cases ?S rule: list.exhaust; cases "tl ?S"; cases "tl (tl ?S)") auto
  qed
  from top few show ?thesis by blast
qed

theorem most_played_top_three_witness:
  "(\<exists>a b c.
      get_most_played_songs
        (Some [(''user_id_1'', \<lparr>played_songs = Some [(''song_id_1'', [''song_id_3''])], BPM = None, genre = None\<rparr>),
               (''user_id_2'', \<lparr>played_songs = Some [(''song_id_1'', [''song_id_2''])], BPM = None, genre = None\<rparr>),
               (''user_id_3'', \<lparr>played_songs = Some [(''song_id_1'', [''song_id_4''])], BPM = None, genre = None\<rparr>),
               (''user_id_4'', \<lparr>played_songs = Some [(''song_id_9'', [''song_id_7''])], BPM = None, genre = None\<rparr>),
               (''user_id_5'', \<lparr>played_songs = Some [(''song_id_1'', [''song_id_2'', ''song_id_5''])], BPM = None, genre = None\<rparr>),
               (''user_id_6'', \<lparr>played_songs = Some [(''song_id_1'', [''song_id_5''])], BPM = None, genre = None\<rparr>)])
        ''song_id_1'' = Inr [a, b, c]
    \<and> [a, b, c] = [''song_id_2'', ''song_id_3'', ''song_id_4''])
   \<and> get_most_played_songs
        (Some [(''user_id_1'', \<lparr>played_songs = Some [(''song_id_1'', [''song_id_3''])], BPM = None, genre = None\<rparr>),
               (''user_id_2'', \<lparr>played_songs = Some [(''song_id_1'', [''song_id_2''])], BPM = None, genre = None\<rparr>)])
        ''song_id_1'' = Inl IndexError"
proof -
  let ?users = "[(''user_id_1'', \<lparr>played_songs = Some [(''song_id_1'', [''song_id_3''])], BPM = None, genre = None\<rparr>),
               (''user_id_2'', \<lparr>played_songs = Some [(''song_id_1'', [''song_id_2''])], BPM = None, genre = None\<rparr>),
               (''user_id_3'', \<lparr>played_songs = Some [(''song_id_1'', [''song_id_4''])], BPM = None, genre = None\<rparr>),
               (''user_id_4'', \<lparr>played_songs = Some [(''song_id_9'', [''song_id_7''])], BPM = None, genre = None\<rparr>),
               (''user_id_5'', \<lparr>played_songs = Some [(''song_id_1'', [''song_id_2'', ''song_id_5''])], BPM = None, genre = None\<rparr>),
               (''user_id_6'', \<lparr>played_songs = Some [(''song_id_1'', [''song_id_5''])], BPM = None, genre = None\<rparr>)]"
  let ?few = "[(''user_id_1'', \<lparr>played_songs = Some [(''song_id_1'', [''song_id_3''])], BPM = None, genre = None\<rparr>),
               (''user_id_2'', \<lparr>played_songs = Some [(''song_id_1'', [''song_id_2''])], BPM = None, genre = None\<rparr>)]"
  have n: "recorded_nexts ?users ''song_id_1''
      = [''song_id_3'', ''song_id_2'', ''song_id_4'', ''song_id_2'', ''song_id_5'']"
    by (simp add: recorded_nexts_def map_filter_simps recorded_next_def)
  have h1: "users_table ?users" by (simp add: users_table_def is_dict_def)
  have h2: "3 \<le> card (set (recorded_nexts ?users ''song_id_1''))" unfolding n List.card_set by simp
  from most_played_top_three[OF h1, of "''song_id_1''"] h2
  obtain a b c where r: "get_most_played_songs (Some ?users) ''song_id_1'' = Inr [a, b, c]"
    and s: "set [a, b, c] \<subseteq> set (recorded_nexts ?users ''song_id_1'')"
    and ab: "outranks ?users ''song_id_1'' a b" and bc: "outranks ?users ''song_id_1'' b c"
    and rest: "\<forall>d\<in>set (recorded_nexts ?users ''song_id_1'') - {a, b, c}. outranks ?users ''song_id_1'' c d"
    by blast
  have e: "get_most_played_songs (Some ?users) ''song_id_1''
      = Inr [''song_id_2'', ''song_id_3'', ''song_id_4'']"
    by (simp add: get_most_played_songs_def get_users_data_def read_json_def bindE_def
        field_def first_def Counter_def counter_add_def most_common_def)
  from r e have top: "[a, b, c] = [''song_id_2'', ''song_id_3'', ''song_id_4'']" by simp
  have f1: "users_table ?few" by (simp add: users_table_def is_dict_def)
  have f2: "card (set (recorded_nexts ?few ''song_id_1'')) < 3"
    unfolding List.card_set
    by (simp add: recorded_nexts_def map_filter_simps recorded_next_def)
  from most_played_top_three[OF f1, of "''song_id_1''"] f2
  have "get_most_played_songs (Some ?few) ''song_id_1'' = Inl IndexError" by blast
  with r top show ?thesis by blast
qed

text \<open>
  C2. For every non-empty active cohort (and a draw of \<open>MFC.get_next_song\<close> that returns),
  one call of \<open>active_users_behaviour\<close> returns the size of the whole cohort and writes the
  history entry \<open>song_id \<mapsto> [next_song]\<close> for one user only, the first of the cohort in
  iteration order: the record of every other user key, and the Config table, are unchanged.
\<close>

theorem first_active_user_written:
  assumes "generate_active_users to_list fuel g = Some (Inr (user # others, g1))"
    and "MFC_get_next_song st song_id g1 = Inr (next_song, g2)"
  shows "\<exists>st' users users' e ps.
           active_users_behaviour to_list fuel st song_id g
             = Some (Inr (Some (length (user # others)), st', g2))
         \<and> config_file st' = config_file st
         \<and> users_file st = Some users
         \<and> users_file st' = Some users'
         \<and> map_of users' (format_user_id user) = Some e
         \<and> played_songs e = Some ps
         \<and> map_of ps song_id = Some [next_song]
         \<and> (\<forall>k. k \<noteq> format_user_id user \<longrightarrow> map_of users' k = map_of users k)"
proof -
  let ?st' = "set_new_song st (format_user_id user) song_id next_song"
  have a: "active_users_behaviour to_list fuel st song_id g
             = Some (Inr (Some (length (user # others)), ?st', g2))"
    by (simp add: active_users_behaviour_def assms bindE_def Let_def)
  have c: "config_file ?st' = config_file st" by (simp add: set_new_song_def)
  from MFC_get_next_song_file[OF assms(2)] obtain users where u: "users_file st = Some users"
    by blast
  have "write_json (Some users) (format_user_id user) song_id [next_song] = users_file ?st'"
    by (simp add: set_new_song_def u)
  from write_json_frame[OF this] obtain users' e ps where
    "users_file ?st' = Some users'" "map_of users' (format_user_id user) = Some e"
    "played_songs e = Some ps" "map_of ps song_id = Some [next_song]"
    "\<forall>k. k \<noteq> format_user_id user \<longrightarrow> map_of users' k = map_of users k"
    by blast
  with a c u show ?thesis by blast
qed

theorem first_active_user_written_witness:
  "\<exists>st' users' e ps.
     active_users_behaviour sorted_list_of_set 24 example_store ''song_id_1'' (Suc, 2)
       = Some (Inr (Some 13, st', (Suc, 17)))
   \<and> users_file st' = Some users'
   \<and> map_of users' ''user_id_5'' = Some e
   \<and> played_songs e = Some ps
   \<and> map_of ps ''song_id_1'' = Some [''song_id_2'']
   \<and> (\<forall>k. k \<noteq> ''user_id_5'' \<longrightarrow> map_of users' k = map_of example_users k)"
proof -
  have h2: "MFC_get_next_song example_store ''song_id_1'' (Suc, 16)
      = Inr (''song_id_2'', (Suc, 17))"
    using example_pick[of example_store "''song_id_1''" 16]
    by (simp add: example_store_def example_most_played)
  have u: "users_file example_store = Some example_users" by (simp add: example_store_def)
  have f: "format_user_id 5 = ''user_id_5''"
    by (simp add: format_user_id_def str.simps digit_char_def)
  from first_active_user_written[OF example_cohort h2]
  obtain st' users users' e ps where
    a: "active_users_behaviour sorted_list_of_set 24 example_store ''song_id_1'' (Suc, 2)
       = Some (Inr (Some (length [5, 6, 7, 8, 9, 10, 11, 12, 13, 14, 15, 16, 17 :: nat]), st', (Suc, 17)))"
    and b: "users_file example_store = Some users" "users_file st' = Some users'"
      "map_of users' (format_user_id 5) = Some e" "played_songs e = Some ps"
      "map_of ps ''song_id_1'' = Some [''song_id_2'']"
      "\<forall>k. k \<noteq> format_user_id 5 \<longrightarrow> map_of users' k = map_of users k"
    by blast
  from b(1) u have users: "users = example_users" by simp
  from a have a': "active_users_behaviour sorted_list_of_set 24 example_store ''song_id_1'' (Suc, 2)
       = Some (Inr (Some 13, st', (Suc, 17)))" by simp
  show ?thesis
    using a' b(2-6) unfolding users f by (intro exI conjI)
qed

text \<open>
  C8 (as the code has it). The \<open>user_count\<close> field of the aggregate that \<open>stats\<close> returns is the
  constant 50, whatever the store holds.
\<close>

theorem stats_user_count_constant:
  "stats to_list fuel st song_id g = Some (Inr (r, st', g')) \<Longrightarrow> user_count r = 50"
  by (rule stats_user_count_aux)

text \<open>
  C8, counterexample to the claim as stated: on the example store \<open>stats\<close> returns an aggregate
  whose \<open>user_count\<close> is 50, while the Users table has 5 users.
\<close>

theorem stats_user_count_not_table_size:
  "stats sorted_list_of_set 24 example_store ''song_id_1'' (Suc, 2)
     = Some (Inr (\<lparr>user_count = 50,
                    active_users_count = Some 13,
                    original_song = ''song_id_1'',
                    default_song = ''song_id_2'',
                    mfc_song = ''song_id_2'',
                    users_count_and_choosen_songs =
                      \<lparr>song_1 = (''song_id_2'', 2), song_2 = (''song_id_3'', 2)\<rparr>\<rparr>,
                  example_store', (Suc, 18)))
   \<and> get_user_count (users_file example_store) = Inr 5"
  using example_stats example_user_count by (rule conjI)

theorem stats_user_count_constant_witness:
  "user_count
     \<lparr>user_count = 50,
      active_users_count = Some 13,
      original_song = ''song_id_1'',
      default_song = ''song_id_2'',
      mfc_song = ''song_id_2'',
      users_count_and_choosen_songs =
        \<lparr>song_1 = (''song_id_2'', 2), song_2 = (''song_id_3'', 2)\<rparr>\<rparr> = 50
   \<and> (\<exists>st' g'. stats sorted_list_of_set 24 example_store ''song_id_1'' (Suc, 2)
         = Some (Inr (\<lparr>user_count = 50,
      active_users_count = Some 13,
      original_song = ''song_id_1'',
      default_song = ''song_id_2'',
      mfc_song = ''song_id_2'',
      users_count_and_choosen_songs =
        \<lparr>song_1 = (''song_id_2'', 2), song_2 = (''song_id_3'', 2)\<rparr>\<rparr>, st', g')))"
  using stats_user_count_constant[OF example_stats] example_stats by blast

end
